theory Spec2Isabelle
  imports Complex_Main
begin

section \<open>Errors, panics and contexts\<close>

text \<open>
  The error values the modelled functions return. \<open>Wrap msg e\<close> is
  \<^verbatim>\<open>fmt.Errorf(msg + ": %w", e)\<close>; \<open>OtherError\<close> stands for the opaque errors
  of the standard library (transport, request construction, body reader).
  A context is modelled by what \<^verbatim>\<open>ctx.Err()\<close> reports: \<open>None\<close> while it is live,
  \<open>Some e\<close> once it is cancelled or past its deadline (its \<^verbatim>\<open>Done()\<close> channel is
  then closed).
\<close>

datatype ctx_error = Canceled | DeadlineExceeded

datatype error =
    ErrQueueClosed
  | ContextError ctx_error
  | ErrNoCredentials
  | ErrTokenTooLarge
  | APIError nat
  | OtherError string
  | Wrap string error

datatype panic = Panic string

type_synonym ctx = "ctx_error option"

section \<open>internal/queue/queue.go: the serialization gate\<close>

text \<open>
  \<^verbatim>\<open>sem\<close> is a channel of capacity 1: the model keeps the number of values it
  buffers. \<^verbatim>\<open>closed\<close> is a channel that never carries a value and is only ever
  closed: the model keeps whether it has been closed (field \<open>closed_ch\<close>).
  \<^verbatim>\<open>closeOnce\<close> is the done flag of the \<^verbatim>\<open>sync.Once\<close>.
\<close>

record Queue =
  sem :: nat
  closed_ch :: bool
  closeOnce :: bool

definition sem_cap :: nat where
  "sem_cap = 1"

definition queue_New :: Queue where
  "queue_New = \<lparr>sem = 0, closed_ch = False, closeOnce = False\<rparr>"

text \<open>
  The three communications of the blocking \<^verbatim>\<open>select\<close> of \<^verbatim>\<open>Acquire\<close>
  (queue.go lines 52-59). \<open>select_acquire q c k\<close> is the outcome when the select
  proceeds with case \<open>k\<close>, and \<open>None\<close> when that communication cannot proceed in
  state \<open>q\<close> with context \<open>c\<close>: a receive from \<^verbatim>\<open>q.closed\<close> proceeds only once the
  channel is closed, a receive from \<^verbatim>\<open>ctx.Done()\<close> only once the context is done,
  and the send on \<^verbatim>\<open>q.sem\<close> only while the buffer has room. When several can
  proceed Go picks one of them at random; when none can, the select blocks.
\<close>

datatype select_case = RecvClosed | RecvCtxDone | SendSem

definition select_acquire :: "Queue \<Rightarrow> ctx \<Rightarrow> select_case \<Rightarrow> (error + Queue) option" where
  "select_acquire q c k =
     (case k of
        RecvClosed \<Rightarrow> if closed_ch q then Some (Inl ErrQueueClosed) else None
      | RecvCtxDone \<Rightarrow> (case c of Some e \<Rightarrow> Some (Inl (ContextError e)) | None \<Rightarrow> None)
      | SendSem \<Rightarrow> if sem q < sem_cap then Some (Inr (q\<lparr>sem := sem q + 1\<rparr>)) else None)"

text \<open>
  \<^verbatim>\<open>Acquire\<close> as one caller runs it with nobody else touching the queue:
  \<open>c0\<close> is the context as line 39 reads it, \<open>c1\<close> the context when the select
  of line 52 proceeds, \<open>k\<close> the case the select takes. \<open>None\<close>: the select
  cannot proceed with \<open>k\<close>.
\<close>

definition Acquire :: "Queue \<Rightarrow> ctx \<Rightarrow> ctx \<Rightarrow> select_case \<Rightarrow> (error + Queue) option" where
  "Acquire q c0 c1 k =
     (case c0 of
        Some e \<Rightarrow> Some (Inl (ContextError e))
      | None \<Rightarrow>
          if closed_ch q then Some (Inl ErrQueueClosed)
          else select_acquire q c1 k)"

text \<open>
  \<^verbatim>\<open>Release\<close> (lines 65-72): a non-blocking receive from \<^verbatim>\<open>sem\<close>, and a panic
  when the buffer is empty.
\<close>

definition Release :: "Queue \<Rightarrow> panic + Queue" where
  "Release q =
     (if 0 < sem q then Inr (q\<lparr>sem := sem q - 1\<rparr>)
      else Inl (Panic ''queue: Release called without Acquire''))"

text \<open>
  \<^verbatim>\<open>Close\<close> (lines 76-80): \<^verbatim>\<open>closeOnce.Do\<close> runs \<^verbatim>\<open>close(q.closed)\<close> unless
  the once has already fired; closing a channel that is already closed panics.
\<close>

definition Close :: "Queue \<Rightarrow> panic + Queue" where
  "Close q =
     (if closeOnce q then Inr q
      else if closed_ch q then Inl (Panic ''close of closed channel'')
      else Inr (q\<lparr>closed_ch := True, closeOnce := True\<rparr>))"

subsection \<open>Callers of the gate, interleaved\<close>

text \<open>
  Goroutines are numbered. Each is outside any call (\<open>Idle\<close>, or \<open>Failed e\<close>
  after an \<^verbatim>\<open>Acquire\<close> that returned \<open>e\<close>), inside \<^verbatim>\<open>Acquire\<close> after the
  context check of lines 39-41 (\<open>Checked\<close>), inside \<^verbatim>\<open>Acquire\<close> at the select of
  line 52 (\<open>Waiting\<close>), or between an \<^verbatim>\<open>Acquire\<close> that returned nil and its
  \<^verbatim>\<open>Release\<close> (\<open>Holding\<close>). Every channel operation is one atomic action, so an
  execution is a list of actions. Callers follow the documented protocol:
  \<^verbatim>\<open>Release\<close> is called only after \<^verbatim>\<open>Acquire\<close> returned nil. \<^verbatim>\<open>Close\<close> may be
  called by anyone at any time. A context may fire at any time and stays done.
\<close>

datatype pc = Idle | Checked | Waiting | Holding | Failed error

record gate_state =
  gate :: Queue
  pcs :: "nat \<Rightarrow> pc"
  ctxs :: "nat \<Rightarrow> ctx"
  panicked :: bool

text \<open>
  The actions: \<open>AcquireCall t\<close> is the context check of lines 39-41 by goroutine
  \<open>t\<close>, \<open>AcquireClosedCheck t\<close> the non-blocking select of lines 46-50,
  \<open>AcquireSelect t k\<close> the select of lines 52-59 proceeding with case \<open>k\<close>,
  \<open>ReleaseCall t\<close> the select of lines 66-71, \<open>CloseCall\<close> the body of \<^verbatim>\<open>Close\<close>.
  \<open>CtxFire t e\<close> cancels or times out the context goroutine \<open>t\<close> passes to
  \<^verbatim>\<open>Acquire\<close>, and \<open>CtxFresh t\<close> gives it a live context for its next call.
  \<open>gate_step a s\<close> is \<open>None\<close> when the action cannot happen in state \<open>s\<close>; a
  panic ends the program.
\<close>

datatype action =
    AcquireCall nat
  | AcquireClosedCheck nat
  | AcquireSelect nat select_case
  | ReleaseCall nat
  | CloseCall
  | CtxFire nat ctx_error
  | CtxFresh nat

definition outside :: "pc \<Rightarrow> bool" where
  "outside p = (case p of Idle \<Rightarrow> True | Failed e \<Rightarrow> True | Checked \<Rightarrow> False
                | Waiting \<Rightarrow> False | Holding \<Rightarrow> False)"

definition gate_init :: gate_state where
  "gate_init = \<lparr>gate = queue_New, pcs = (\<lambda>t. Idle), ctxs = (\<lambda>t. None), panicked = False\<rparr>"

fun gate_step :: "action \<Rightarrow> gate_state \<Rightarrow> gate_state option" where
  "gate_step (AcquireCall t) s =
     (if panicked s \<or> \<not> outside (pcs s t) then None
      else (case ctxs s t of
              Some e \<Rightarrow> Some (s\<lparr>pcs := (pcs s)(t := Failed (ContextError e))\<rparr>)
            | None \<Rightarrow> Some (s\<lparr>pcs := (pcs s)(t := Checked)\<rparr>)))"
| "gate_step (AcquireClosedCheck t) s =
     (if panicked s \<or> pcs s t \<noteq> Checked then None
      else if closed_ch (gate s) then Some (s\<lparr>pcs := (pcs s)(t := Failed ErrQueueClosed)\<rparr>)
      else Some (s\<lparr>pcs := (pcs s)(t := Waiting)\<rparr>))"
| "gate_step (AcquireSelect t k) s =
     (if panicked s \<or> pcs s t \<noteq> Waiting then None
      else (case select_acquire (gate s) (ctxs s t) k of
              None \<Rightarrow> None
            | Some (Inl e) \<Rightarrow> Some (s\<lparr>pcs := (pcs s)(t := Failed e)\<rparr>)
            | Some (Inr q) \<Rightarrow> Some (s\<lparr>gate := q, pcs := (pcs s)(t := Holding)\<rparr>)))"
| "gate_step (ReleaseCall t) s =
     (if panicked s \<or> pcs s t \<noteq> Holding then None
      else (case Release (gate s) of
              Inl p \<Rightarrow> Some (s\<lparr>panicked := True\<rparr>)
            | Inr q \<Rightarrow> Some (s\<lparr>gate := q, pcs := (pcs s)(t := Idle)\<rparr>)))"
| "gate_step CloseCall s =
     (if panicked s then None
      else (case Close (gate s) of
              Inl p \<Rightarrow> Some (s\<lparr>panicked := True\<rparr>)
            | Inr q \<Rightarrow> Some (s\<lparr>gate := q\<rparr>)))"
| "gate_step (CtxFire t e) s =
     (if panicked s \<or> ctxs s t \<noteq> None then None
      else Some (s\<lparr>ctxs := (ctxs s)(t := Some e)\<rparr>))"
| "gate_step (CtxFresh t) s =
     (if panicked s \<or> \<not> outside (pcs s t) then None
      else Some (s\<lparr>ctxs := (ctxs s)(t := None)\<rparr>))"

fun gate_run :: "action list \<Rightarrow> gate_state \<Rightarrow> gate_state option" where
  "gate_run [] s = Some s"
| "gate_run (a # as) s = (case gate_step a s of None \<Rightarrow> None | Some s' \<Rightarrow> gate_run as s')"

section \<open>float64 arithmetic\<close>

text \<open>
  The rate limiter computes with \<^verbatim>\<open>float64\<close>: IEEE 754 binary64 with rounding to
  nearest, ties to even, one rounding per operation (as the Go compiler emits it
  where it does not fuse a multiplication with an addition, amd64 among them). A
  value is a real number, an infinity or NaN; the two zeros are one value: they
  compare equal, and the only operation of the limiter that tells them apart (a
  division by zero, which gives an infinity of either sign) is followed by a
  conversion that maps both infinities to the same integer.

  \<open>round_float64 x\<close> is the \<^verbatim>\<open>float64\<close> nearest to the real number \<open>x\<close>: with
  \<open>2 ^ e \<le> \<bar>x\<bar> < 2 ^ (e + 1)\<close> the spacing of the values around \<open>x\<close> is
  \<open>2 ^ (e - 52)\<close> (and \<open>2 ^ (- 1074)\<close> below the normal range), \<open>x\<close> is rounded to a
  multiple of it, and a result of magnitude \<open>2 ^ 1024\<close> or more is an infinity.
\<close>

datatype float64 = Finite real | PInf | NInf | NaN

definition pow2 :: "int \<Rightarrow> real" where
  "pow2 k = (if 0 \<le> k then 2 ^ nat k else 1 / 2 ^ nat (- k))"

fun bit_length :: "nat \<Rightarrow> nat" where
  "bit_length n = (if n = 0 then 0 else Suc (bit_length (n div 2)))"

declare bit_length.simps [simp del]

text \<open>The binary exponent of a real number other than 0: \<open>\<lfloor>log\<^sub>2 \<bar>x\<bar>\<rfloor>\<close>.\<close>

definition exponent :: "real \<Rightarrow> int" where
  "exponent x =
     (if 1 \<le> \<bar>x\<bar> then int (bit_length (nat \<lfloor>\<bar>x\<bar>\<rfloor>)) - 1
      else - int (bit_length (nat (\<lceil>1 / \<bar>x\<bar>\<rceil> - 1))))"

definition round_half_even :: "real \<Rightarrow> int" where
  "round_half_even x =
     (let f = \<lfloor>x\<rfloor>; d = x - real_of_int f
      in if d < 1 / 2 then f else if 1 / 2 < d then f + 1 else if even f then f else f + 1)"

definition round_float64 :: "real \<Rightarrow> float64" where
  "round_float64 x =
     (if x = 0 then Finite 0
      else (let e = max (exponent x) (- 1022);
                q = pow2 (e - 52);
                y = real_of_int (round_half_even (x / q)) * q
            in if 2 ^ 1024 \<le> \<bar>y\<bar> then (if 0 < x then PInf else NInf) else Finite y))"

definition signed_inf :: "bool \<Rightarrow> float64" where
  "signed_inf negative = (if negative then NInf else PInf)"

fun fadd :: "float64 \<Rightarrow> float64 \<Rightarrow> float64" where
  "fadd NaN y = NaN"
| "fadd x NaN = NaN"
| "fadd PInf NInf = NaN"
| "fadd NInf PInf = NaN"
| "fadd PInf y = PInf"
| "fadd NInf y = NInf"
| "fadd x PInf = PInf"
| "fadd x NInf = NInf"
| "fadd (Finite a) (Finite b) = round_float64 (a + b)"

fun fneg :: "float64 \<Rightarrow> float64" where
  "fneg NaN = NaN"
| "fneg PInf = NInf"
| "fneg NInf = PInf"
| "fneg (Finite a) = Finite (- a)"

definition fsub :: "float64 \<Rightarrow> float64 \<Rightarrow> float64" where
  "fsub x y = fadd x (fneg y)"

fun fmul :: "float64 \<Rightarrow> float64 \<Rightarrow> float64" where
  "fmul NaN y = NaN"
| "fmul x NaN = NaN"
| "fmul (Finite a) (Finite b) = round_float64 (a * b)"
| "fmul (Finite a) PInf = (if a = 0 then NaN else signed_inf (a < 0))"
| "fmul (Finite a) NInf = (if a = 0 then NaN else signed_inf (0 < a))"
| "fmul PInf (Finite b) = (if b = 0 then NaN else signed_inf (b < 0))"
| "fmul NInf (Finite b) = (if b = 0 then NaN else signed_inf (0 < b))"
| "fmul PInf PInf = PInf"
| "fmul PInf NInf = NInf"
| "fmul NInf PInf = NInf"
| "fmul NInf NInf = PInf"

fun fdiv :: "float64 \<Rightarrow> float64 \<Rightarrow> float64" where
  "fdiv NaN y = NaN"
| "fdiv x NaN = NaN"
| "fdiv (Finite a) (Finite b) =
     (if b = 0 then (if a = 0 then NaN else signed_inf (a < 0)) else round_float64 (a / b))"
| "fdiv (Finite a) PInf = Finite 0"
| "fdiv (Finite a) NInf = Finite 0"
| "fdiv PInf (Finite b) = signed_inf (b < 0)"
| "fdiv NInf (Finite b) = signed_inf (0 \<le> b)"
| "fdiv PInf PInf = NaN"
| "fdiv PInf NInf = NaN"
| "fdiv NInf PInf = NaN"
| "fdiv NInf NInf = NaN"

text \<open>The comparisons \<^verbatim>\<open><\<close> and \<^verbatim>\<open><=\<close>, false when an operand is NaN.\<close>

fun flt :: "float64 \<Rightarrow> float64 \<Rightarrow> bool" where
  "flt NaN y = False"
| "flt x NaN = False"
| "flt (Finite a) (Finite b) = (a < b)"
| "flt (Finite a) PInf = True"
| "flt (Finite a) NInf = False"
| "flt PInf y = False"
| "flt NInf (Finite b) = True"
| "flt NInf PInf = True"
| "flt NInf NInf = False"

fun fle :: "float64 \<Rightarrow> float64 \<Rightarrow> bool" where
  "fle NaN y = False"
| "fle x NaN = False"
| "fle (Finite a) (Finite b) = (a \<le> b)"
| "fle (Finite a) PInf = True"
| "fle (Finite a) NInf = False"
| "fle PInf (Finite b) = False"
| "fle PInf PInf = True"
| "fle PInf NInf = False"
| "fle NInf y = True"

text \<open>The conversion \<^verbatim>\<open>float64(i)\<close> of an \<^verbatim>\<open>int64\<close>.\<close>

definition float64_of_int :: "int \<Rightarrow> float64" where
  "float64_of_int i = round_float64 (real_of_int i)"

definition minInt64 :: int where
  "minInt64 = - (2 ^ 63)"

definition maxInt64 :: int where
  "maxInt64 = 2 ^ 63 - 1"

text \<open>
  The conversion of a \<^verbatim>\<open>float64\<close> to \<^verbatim>\<open>int64\<close>: Go discards the fraction
  (truncation towards zero). For NaN, an infinity, or a value whose integer part is
  outside \<^verbatim>\<open>int64\<close>, the language leaves the result to the implementation; the
  definition gives what the amd64 instruction gives, the least \<^verbatim>\<open>int64\<close>.
  \<open>fits_int64\<close> holds of the values for which the language fixes the result.
\<close>

definition trunc :: "real \<Rightarrow> int" where
  "trunc x = (if 0 \<le> x then \<lfloor>x\<rfloor> else \<lceil>x\<rceil>)"

definition fits_int64 :: "float64 \<Rightarrow> bool" where
  "fits_int64 x =
     (case x of
        Finite r \<Rightarrow> minInt64 \<le> trunc r \<and> trunc r \<le> maxInt64
      | PInf \<Rightarrow> False | NInf \<Rightarrow> False | NaN \<Rightarrow> False)"

definition int64_of_float64 :: "float64 \<Rightarrow> int" where
  "int64_of_float64 x =
     (case x of
        Finite r \<Rightarrow> (if fits_int64 x then trunc r else minInt64)
      | PInf \<Rightarrow> minInt64 | NInf \<Rightarrow> minInt64 | NaN \<Rightarrow> minInt64)"

section \<open>internal/ratelimit/ratelimit.go: the token bucket\<close>

text \<open>
  A \<^verbatim>\<open>time.Time\<close> is a reading of the monotonic clock in nanoseconds, as an
  unbounded integer, and a \<^verbatim>\<open>time.Duration\<close> an \<^verbatim>\<open>int64\<close> number of nanoseconds.
  Every method runs under \<^verbatim>\<open>l.mu\<close>, so each is one atomic function of the
  limiter; the reading of \<^verbatim>\<open>time.Now()\<close> it makes is the argument \<open>now\<close>.
\<close>

record Limiter =
  tokens :: float64
  maxTokens :: float64
  refillRate :: float64
  lastRefill :: int

definition Second :: int where
  "Second = 1000000000"

text \<open>\<^verbatim>\<open>t.Sub(u)\<close>: the difference, kept within the range of \<^verbatim>\<open>time.Duration\<close>.\<close>

definition Sub :: "int \<Rightarrow> int \<Rightarrow> int" where
  "Sub t u = (if t - u < minInt64 then minInt64 else if maxInt64 < t - u then maxInt64 else t - u)"

text \<open>Go's integer division and remainder, which truncate towards zero.\<close>

definition quo :: "int \<Rightarrow> int \<Rightarrow> int" where
  "quo a b = sgn a * sgn b * (\<bar>a\<bar> div \<bar>b\<bar>)"

definition rem :: "int \<Rightarrow> int \<Rightarrow> int" where
  "rem a b = sgn a * (\<bar>a\<bar> mod \<bar>b\<bar>)"

text \<open>
  \<^verbatim>\<open>Duration.Seconds()\<close>: \<^verbatim>\<open>sec := d / Second; nsec := d % Second;
  return float64(sec) + float64(nsec)/1e9\<close>.
\<close>

definition Seconds :: "int \<Rightarrow> float64" where
  "Seconds d =
     (let sec = quo d Second; nsec = rem d Second
      in fadd (float64_of_int sec) (fdiv (float64_of_int nsec) (Finite 1000000000)))"

text \<open>The conversion \<^verbatim>\<open>time.Duration(x)\<close> of a \<^verbatim>\<open>float64\<close>.\<close>

definition Duration_of_float :: "float64 \<Rightarrow> int" where
  "Duration_of_float x = int64_of_float64 x"

definition ratelimit_New :: "float64 \<Rightarrow> int \<Rightarrow> Limiter" where
  "ratelimit_New requestsPerSecond now =
     \<lparr>tokens = requestsPerSecond, maxTokens = requestsPerSecond,
      refillRate = requestsPerSecond, lastRefill = now\<rparr>"

definition refill :: "Limiter \<Rightarrow> int \<Rightarrow> Limiter" where
  "refill l now =
     (let elapsed = Seconds (Sub now (lastRefill l));
          l1 = l\<lparr>lastRefill := now\<rparr>;
          l2 = l1\<lparr>tokens := fadd (tokens l1) (fmul elapsed (refillRate l1))\<rparr>
      in if flt (maxTokens l2) (tokens l2) then l2\<lparr>tokens := maxTokens l2\<rparr> else l2)"

definition Allow :: "Limiter \<Rightarrow> int \<Rightarrow> Limiter \<times> bool" where
  "Allow l now =
     (let l1 = refill l now
      in if fle (Finite 1) (tokens l1) then (l1\<lparr>tokens := fsub (tokens l1) (Finite 1)\<rparr>, True)
         else (l1, False))"

definition tryAcquireOrGetWaitTime :: "Limiter \<Rightarrow> int \<Rightarrow> Limiter \<times> int" where
  "tryAcquireOrGetWaitTime l now =
     (let l1 = refill l now
      in if fle (Finite 1) (tokens l1) then (l1\<lparr>tokens := fsub (tokens l1) (Finite 1)\<rparr>, 0)
         else (let tokensNeeded = fsub (Finite 1) (tokens l1);
                   seconds = fdiv tokensNeeded (refillRate l1)
               in (l1, Duration_of_float (fmul seconds (float64_of_int Second)))))"

text \<open>
  \<^verbatim>\<open>Wait\<close>: one element of the list per iteration of the loop, holding the reading
  of the clock at which the iteration calls \<^verbatim>\<open>tryAcquireOrGetWaitTime\<close> and what
  the select after it takes: \<open>Some e\<close> when it receives from \<^verbatim>\<open>ctx.Done()\<close> (the
  context's error is \<open>e\<close>), \<open>None\<close> when the timer of \<^verbatim>\<open>time.After(waitTime)\<close>
  fires. The result is \<open>None\<close> when the list ends before the loop returns.
\<close>

fun Wait :: "Limiter \<Rightarrow> (int \<times> ctx) list \<Rightarrow> (Limiter \<times> error option) option" where
  "Wait l [] = None"
| "Wait l ((now, c) # rest) =
     (case tryAcquireOrGetWaitTime l now of
        (l1, waitTime) \<Rightarrow>
          if waitTime = 0 then Some (l1, None)
          else (case c of
                  Some e \<Rightarrow> Some (l1, Some (ContextError e))
                | None \<Rightarrow> Wait l1 rest))"

section \<open>client.go and the login file: the session and the guarded pipeline\<close>

text \<open>
  Of the \<^verbatim>\<open>Client\<close> struct the model keeps the gate, the rate limiter (a pointer
  that is nil unless \<^verbatim>\<open>WithRateLimit\<close> was given), the token and its expiry, the
  stored credentials (a pointer, nil when none are stored) and the refresh
  configuration. \<open>httpCalls\<close> counts the requests handed to \<^verbatim>\<open>c.httpClient.Do\<close>, as
  the counting test double of the repository's tests does. The mutexes have no
  state of their own in a sequential run; the refresh mutex reappears in the
  interleaved model below. Times are nanoseconds since the zero \<^verbatim>\<open>time.Time\<close>, read
  from the monotonic clock, and durations are nanoseconds, both unbounded.
\<close>

record credentials =
  username :: string
  password :: string
  authString :: string

record Client =
  queue :: Queue
  rateLimiter :: "Limiter option"
  token :: string
  tokenExpiry :: int
  credentials :: "credentials option"
  tokenLifetime :: int
  refreshThreshold :: int
  autoRefresh :: bool
  httpCalls :: nat

definition defaultTokenLifetime :: int where
  "defaultTokenLifetime = 3600 * Second"

definition defaultRefreshThreshold :: int where
  "defaultRefreshThreshold = 5 * 60 * Second"

text \<open>\<^verbatim>\<open>New\<close> with no options, and the options that matter here.\<close>

definition client_New :: Client where
  "client_New =
     \<lparr>queue = queue_New, rateLimiter = None, token = [], tokenExpiry = 0,
      credentials = None, tokenLifetime = defaultTokenLifetime,
      refreshThreshold = defaultRefreshThreshold, autoRefresh = True, httpCalls = 0\<rparr>"

definition WithRateLimit :: "float64 \<Rightarrow> int \<Rightarrow> Client \<Rightarrow> Client" where
  "WithRateLimit requestsPerSecond now c = c\<lparr>rateLimiter := Some (ratelimit_New requestsPerSecond now)\<rparr>"

definition WithTokenLifetime :: "int \<Rightarrow> Client \<Rightarrow> Client" where
  "WithTokenLifetime d c = c\<lparr>tokenLifetime := d\<rparr>"

definition WithRefreshThreshold :: "int \<Rightarrow> Client \<Rightarrow> Client" where
  "WithRefreshThreshold d c = c\<lparr>refreshThreshold := d\<rparr>"

definition WithAutoRefresh :: "bool \<Rightarrow> Client \<Rightarrow> Client" where
  "WithAutoRefresh enabled c = c\<lparr>autoRefresh := enabled\<rparr>"

definition getToken :: "Client \<Rightarrow> string" where
  "getToken c = token c"

definition setToken :: "Client \<Rightarrow> string \<Rightarrow> Client" where
  "setToken c tok = c\<lparr>token := tok\<rparr>"

definition setTokenWithExpiry :: "Client \<Rightarrow> string \<Rightarrow> int \<Rightarrow> Client" where
  "setTokenWithExpiry c tok expiry = c\<lparr>token := tok, tokenExpiry := expiry\<rparr>"

definition storeCredentials :: "Client \<Rightarrow> string \<Rightarrow> string \<Rightarrow> string \<Rightarrow> Client" where
  "storeCredentials c u p a =
     c\<lparr>credentials := Some \<lparr>username = u, password = p, authString = a\<rparr>\<rparr>"

definition hasCredentials :: "Client \<Rightarrow> bool" where
  "hasCredentials c = (credentials c \<noteq> None)"

definition ClearCredentials :: "Client \<Rightarrow> Client" where
  "ClearCredentials c = c\<lparr>credentials := None\<rparr>"

text \<open>
  \<^verbatim>\<open>tokenNeedsRefreshLocked\<close> (client.go lines 201-207); \<open>now\<close> is its reading of
  \<^verbatim>\<open>time.Now()\<close>, and \<^verbatim>\<open>t.After(u)\<close> is \<open>u < t\<close>.
\<close>

definition tokenNeedsRefreshLocked :: "Client \<Rightarrow> int \<Rightarrow> bool" where
  "tokenNeedsRefreshLocked c now =
     (if token c = [] then True
      else tokenExpiry c < now + refreshThreshold c)"

definition tokenNeedsRefresh :: "Client \<Rightarrow> int \<Rightarrow> bool" where
  "tokenNeedsRefresh c now = tokenNeedsRefreshLocked c now"

subsection \<open>The login request\<close>

text \<open>
  What the world answers to the login request: \<^verbatim>\<open>c.newRequest\<close> fails and nothing is
  sent (\<open>RequestNotCreated\<close>), \<^verbatim>\<open>c.httpClient.Do\<close> returns an error
  (\<open>TransportError\<close>, which is also what a cancelled context produces), or a response
  arrives with a status code and a body. A body is the bytes its reader delivers and
  whether the reader then fails instead of reporting the end of the stream. The
  answer may depend on the form values sent.
\<close>

datatype http_body = HttpBody string bool

datatype exchange = RequestNotCreated | TransportError | Response nat http_body

type_synonym authenticator = "string \<Rightarrow> string \<Rightarrow> string \<Rightarrow> exchange"

definition StatusOK :: nat where
  "StatusOK = 200"

definition maxTokenSize :: nat where
  "maxTokenSize = 64 * 1024"

text \<open>
  \<^verbatim>\<open>io.ReadAll(io.LimitReader(body, n))\<close>: the first \<open>n\<close> bytes when the body has that
  many (the reader is not asked for more), else the whole body, or the reader's error
  when it fails before \<open>n\<close> bytes were delivered.
\<close>

definition ReadAll_LimitReader :: "http_body \<Rightarrow> nat \<Rightarrow> error + string" where
  "ReadAll_LimitReader b n =
     (case b of HttpBody bytes fails \<Rightarrow>
        if n \<le> length bytes then Inr (take n bytes)
        else if fails then Inl (OtherError ''read'')
        else Inr bytes)"

text \<open>
  \<^verbatim>\<open>strings.TrimSpace\<close> removes the leading and the trailing white space of
  Unicode. On the bytes of the string these are the encodings in UTF-8 of the code
  points U+0009 to U+000D, U+0020, U+0085, U+00A0, U+1680, U+2000 to U+200A, U+2028,
  U+2029, U+202F, U+205F and U+3000: a leading rune is white space exactly when the
  string starts with one of these byte sequences, and a trailing one exactly when it
  ends with one. \<open>strip_runes\<close> removes such sequences from the front for as long
  as there is one; the right trim does the same on the reversed string.
\<close>

definition space_runes :: "string list" where
  "space_runes =
     [[CHR 0x09], [CHR 0x0A], [CHR 0x0B], [CHR 0x0C], [CHR 0x0D], [CHR 0x20],
      [CHR 0xC2, CHR 0x85], [CHR 0xC2, CHR 0xA0], [CHR 0xE1, CHR 0x9A, CHR 0x80],
      [CHR 0xE2, CHR 0x80, CHR 0x80], [CHR 0xE2, CHR 0x80, CHR 0x81],
      [CHR 0xE2, CHR 0x80, CHR 0x82], [CHR 0xE2, CHR 0x80, CHR 0x83],
      [CHR 0xE2, CHR 0x80, CHR 0x84], [CHR 0xE2, CHR 0x80, CHR 0x85],
      [CHR 0xE2, CHR 0x80, CHR 0x86], [CHR 0xE2, CHR 0x80, CHR 0x87],
      [CHR 0xE2, CHR 0x80, CHR 0x88], [CHR 0xE2, CHR 0x80, CHR 0x89],
      [CHR 0xE2, CHR 0x80, CHR 0x8A], [CHR 0xE2, CHR 0x80, CHR 0xA8],
      [CHR 0xE2, CHR 0x80, CHR 0xA9], [CHR 0xE2, CHR 0x80, CHR 0xAF],
      [CHR 0xE2, CHR 0x81, CHR 0x9F], [CHR 0xE3, CHR 0x80, CHR 0x80]]"

definition leading_rune :: "string list \<Rightarrow> string \<Rightarrow> string option" where
  "leading_rune runes s = find (\<lambda>r. r \<noteq> [] \<and> take (length r) s = r) runes"

function strip_runes :: "string list \<Rightarrow> string \<Rightarrow> string" where
  "strip_runes runes s =
     (case leading_rune runes s of
        None \<Rightarrow> s
      | Some r \<Rightarrow> strip_runes runes (drop (length r) s))"
  by pat_completeness auto
termination
proof (relation "measure (\<lambda>(runes, s). length s)")
  show "wf (measure (\<lambda>(runes, s). length s))"
    by simp
next
  fix runes :: "string list" and s r :: string
  assume "leading_rune runes s = Some r"
  then have "r \<noteq> [] \<and> take (length r) s = r"
    unfolding leading_rune_def by (metis (mono_tags, lifting) find_Some_iff)
  then have "s \<noteq> []" and "0 < length r"
    by auto
  then show "((runes, drop (length r) s), (runes, s)) \<in> measure (\<lambda>(runes, s). length s)"
    by simp
qed

declare strip_runes.simps [simp del]

definition TrimLeftSpace :: "string \<Rightarrow> string" where
  "TrimLeftSpace s = strip_runes space_runes s"

definition TrimRightSpace :: "string \<Rightarrow> string" where
  "TrimRightSpace s = rev (strip_runes (map rev space_runes) (rev s))"

definition TrimSpace :: "string \<Rightarrow> string" where
  "TrimSpace s = TrimRightSpace (TrimLeftSpace s)"

inductive_set rune_strings :: "string list \<Rightarrow> string set" for runes :: "string list" where
  empty: "[] \<in> rune_strings runes"
| rune: "r \<in> set runes \<Longrightarrow> s \<in> rune_strings runes \<Longrightarrow> r @ s \<in> rune_strings runes"

text \<open>\<^verbatim>\<open>parseAPIError\<close>: an \<^verbatim>\<open>*APIError\<close> with the response's status code.\<close>

definition parseAPIError :: "nat \<Rightarrow> error" where
  "parseAPIError status = APIError status"

text \<open>
  \<^verbatim>\<open>loginInternal\<close> (lines 143-186 of the login file); \<open>now\<close> is the reading of
  \<^verbatim>\<open>time.Now()\<close> at line 183.
\<close>

definition loginInternal ::
  "Client \<Rightarrow> string \<Rightarrow> string \<Rightarrow> string \<Rightarrow> int \<Rightarrow> authenticator \<Rightarrow> Client \<times> error option" where
  "loginInternal c u p a now srv =
     (case srv u p a of
        RequestNotCreated \<Rightarrow>
          (c, Some (Wrap ''creating login request'' (Wrap ''creating request'' (OtherError ''http''))))
      | TransportError \<Rightarrow>
          (c\<lparr>httpCalls := httpCalls c + 1\<rparr>,
           Some (Wrap ''login request'' (Wrap ''executing request'' (OtherError ''http''))))
      | Response status body \<Rightarrow>
          (let c1 = c\<lparr>httpCalls := httpCalls c + 1\<rparr>
           in if status \<noteq> StatusOK then (c1, Some (parseAPIError status))
              else (case ReadAll_LimitReader body (maxTokenSize + 1) of
                      Inl e \<Rightarrow> (c1, Some (Wrap ''reading login response'' e))
                    | Inr tok \<Rightarrow>
                        if length tok > maxTokenSize then (c1, Some ErrTokenTooLarge)
                        else (setTokenWithExpiry c1 (TrimSpace tok) (now + tokenLifetime c1),
                              None))))"

text \<open>\<^verbatim>\<open>refreshToken\<close> (client.go lines 236-247).\<close>

definition refreshToken :: "Client \<Rightarrow> int \<Rightarrow> authenticator \<Rightarrow> Client \<times> error option" where
  "refreshToken c now srv =
     (case credentials c of
        None \<Rightarrow> (c, Some ErrNoCredentials)
      | Some creds \<Rightarrow> loginInternal c (username creds) (password creds) (authString creds) now srv)"

text \<open>
  \<^verbatim>\<open>ensureValidToken\<close> (client.go lines 212-233) as one caller runs it alone:
  \<open>now_fast\<close> is the clock at the check of line 214, \<open>now_locked\<close> at the check of
  line 228 (under \<^verbatim>\<open>refreshMu\<close>), \<open>now_login\<close> at the end of the login request.
\<close>

record session_env =
  now_fast :: int
  now_locked :: int
  now_login :: int
  auth :: authenticator

definition ensureValidToken :: "Client \<Rightarrow> session_env \<Rightarrow> Client \<times> error option" where
  "ensureValidToken c se =
     (if \<not> tokenNeedsRefresh c (now_fast se) then (c, None)
      else if \<not> autoRefresh c then (c, Some ErrNoCredentials)
      else if \<not> tokenNeedsRefresh c (now_locked se) then (c, None)
      else refreshToken c (now_login se) (auth se))"

subsection \<open>The guarded pipeline\<close>

text \<open>
  What a call that may block or panic ends in: it returns (the client after it,
  and the error or nil), it panics, or it does not return for the given
  environment (\<open>Stuck\<close>: the select of \<^verbatim>\<open>Acquire\<close> cannot proceed, or the list of
  \<^verbatim>\<open>Wait\<close> iterations ran out).
\<close>

datatype outcome = Return Client "error option" | Crash panic | Stuck

record gate_env =
  ctx_entry :: ctx
  ctx_select :: ctx
  chosen :: select_case

text \<open>\<^verbatim>\<open>acquireAndRateLimit\<close> (client.go lines 251-269).\<close>

definition acquireAndRateLimit ::
  "Client \<Rightarrow> session_env \<Rightarrow> gate_env \<Rightarrow> (int \<times> ctx) list \<Rightarrow> outcome" where
  "acquireAndRateLimit c se ge we =
     (case ensureValidToken c se of
        (c1, Some err) \<Rightarrow> Return c1 (Some (Wrap ''ensuring valid token'' err))
      | (c1, None) \<Rightarrow>
          (case Acquire (queue c1) (ctx_entry ge) (ctx_select ge) (chosen ge) of
             None \<Rightarrow> Stuck
           | Some (Inl err) \<Rightarrow> Return c1 (Some (Wrap ''acquiring request queue'' err))
           | Some (Inr q1) \<Rightarrow>
               (let c2 = c1\<lparr>queue := q1\<rparr>
                in case rateLimiter c2 of
                     None \<Rightarrow> Return c2 None
                   | Some l \<Rightarrow>
                       (case Wait l we of
                          None \<Rightarrow> Stuck
                        | Some (l1, Some err) \<Rightarrow>
                            (case Release (queue c2) of
                               Inl pn \<Rightarrow> Crash pn
                             | Inr q2 \<Rightarrow>
                                 Return (c2\<lparr>queue := q2, rateLimiter := Some l1\<rparr>)
                                        (Some (Wrap ''rate limit'' err)))
                        | Some (l1, None) \<Rightarrow> Return (c2\<lparr>rateLimiter := Some l1\<rparr>) None))))"

text \<open>\<^verbatim>\<open>loginAcquireQueue\<close> (lines 126-139 of the login file).\<close>

definition loginAcquireQueue :: "Client \<Rightarrow> gate_env \<Rightarrow> (int \<times> ctx) list \<Rightarrow> outcome" where
  "loginAcquireQueue c ge we =
     (case Acquire (queue c) (ctx_entry ge) (ctx_select ge) (chosen ge) of
        None \<Rightarrow> Stuck
      | Some (Inl err) \<Rightarrow> Return c (Some (Wrap ''acquiring request queue'' err))
      | Some (Inr q1) \<Rightarrow>
          (let c2 = c\<lparr>queue := q1\<rparr>
           in case rateLimiter c2 of
                None \<Rightarrow> Return c2 None
              | Some l \<Rightarrow>
                  (case Wait l we of
                     None \<Rightarrow> Stuck
                   | Some (l1, Some err) \<Rightarrow>
                       (case Release (queue c2) of
                          Inl pn \<Rightarrow> Crash pn
                        | Inr q2 \<Rightarrow>
                            Return (c2\<lparr>queue := q2, rateLimiter := Some l1\<rparr>)
                                   (Some (Wrap ''rate limit'' err)))
                   | Some (l1, None) \<Rightarrow> Return (c2\<lparr>rateLimiter := Some l1\<rparr>) None)))"

text \<open>
  \<^verbatim>\<open>LoginWithAuth\<close> and \<^verbatim>\<open>Login\<close> (lines 100-122): the deferred \<^verbatim>\<open>Release\<close> runs
  when the function returns, after \<^verbatim>\<open>storeCredentials\<close> on the successful path.
\<close>

definition deferred_Release :: "Client \<Rightarrow> error option \<Rightarrow> outcome" where
  "deferred_Release c r =
     (case Release (queue c) of
        Inl pn \<Rightarrow> Crash pn
      | Inr q \<Rightarrow> Return (c\<lparr>queue := q\<rparr>) r)"

definition LoginWithAuth ::
  "Client \<Rightarrow> string \<Rightarrow> string \<Rightarrow> string \<Rightarrow> gate_env \<Rightarrow> (int \<times> ctx) list \<Rightarrow> int
     \<Rightarrow> authenticator \<Rightarrow> outcome" where
  "LoginWithAuth c u p a ge we now srv =
     (case loginAcquireQueue c ge we of
        Return c1 (Some err) \<Rightarrow> Return c1 (Some err)
      | Return c1 None \<Rightarrow>
          (case loginInternal c1 u p a now srv of
             (c2, Some err) \<Rightarrow> deferred_Release c2 (Some err)
           | (c2, None) \<Rightarrow> deferred_Release (storeCredentials c2 u p a) None)
      | Crash pn \<Rightarrow> Crash pn
      | Stuck \<Rightarrow> Stuck)"

definition Login ::
  "Client \<Rightarrow> string \<Rightarrow> string \<Rightarrow> gate_env \<Rightarrow> (int \<times> ctx) list \<Rightarrow> int
     \<Rightarrow> authenticator \<Rightarrow> outcome" where
  "Login c u p ge we now srv = LoginWithAuth c u p [] ge we now srv"

subsection \<open>Callers of ensureValidToken, interleaved\<close>

text \<open>
  Goroutines are numbered. Each has not called yet (\<open>NotCalled\<close>), has returned
  (\<open>Done r\<close>), has passed the checks of lines 214-221 and is about to take
  \<^verbatim>\<open>refreshMu\<close> (\<open>AwaitLock\<close>), holds \<^verbatim>\<open>refreshMu\<close> before the second check of line
  228 (\<open>Locked\<close>), or holds it inside \<^verbatim>\<open>refreshToken\<close> (\<open>Refreshing\<close>). The shared
  state is the client, the holder of \<^verbatim>\<open>refreshMu\<close> and the clock, which only moves
  forward. A check of the token under \<^verbatim>\<open>tokenMu\<close> is one atomic action; so is the
  end of the login request, which installs the token and, by the deferred unlock,
  releases \<^verbatim>\<open>refreshMu\<close>. Only these callers write the session.
\<close>

datatype rpc = NotCalled | AwaitLock | Locked | Refreshing | Done "error option"

record refresh_state =
  client :: Client
  refreshMu :: "nat option"
  clock :: int
  rpcs :: "nat \<Rightarrow> rpc"

text \<open>
  The actions: \<open>Tick d\<close> lets \<open>d\<close> nanoseconds pass; \<open>FastPath t\<close> is the check of
  lines 214-221 by goroutine \<open>t\<close>; \<open>LockRefreshMu t\<close> is line 224, possible only
  while nobody holds the mutex; \<open>DoubleCheck t\<close> is the check of lines 228-230;
  \<open>FinishRefresh t srv\<close> is \<^verbatim>\<open>refreshToken\<close> (line 232) with the world's answer
  \<open>srv\<close> to its login request, followed by the deferred unlock.
\<close>

datatype raction =
    Tick nat
  | FastPath nat
  | LockRefreshMu nat
  | DoubleCheck nat
  | FinishRefresh nat authenticator

definition callable :: "rpc \<Rightarrow> bool" where
  "callable p = (case p of NotCalled \<Rightarrow> True | Done r \<Rightarrow> True | AwaitLock \<Rightarrow> False
                 | Locked \<Rightarrow> False | Refreshing \<Rightarrow> False)"

definition refresh_init :: "Client \<Rightarrow> int \<Rightarrow> refresh_state" where
  "refresh_init c t0 = \<lparr>client = c, refreshMu = None, clock = t0, rpcs = (\<lambda>t. NotCalled)\<rparr>"

fun refresh_step :: "raction \<Rightarrow> refresh_state \<Rightarrow> refresh_state option" where
  "refresh_step (Tick d) s = Some (s\<lparr>clock := clock s + int d\<rparr>)"
| "refresh_step (FastPath t) s =
     (if \<not> callable (rpcs s t) then None
      else if \<not> tokenNeedsRefresh (client s) (clock s)
        then Some (s\<lparr>rpcs := (rpcs s)(t := Done None)\<rparr>)
      else if \<not> autoRefresh (client s)
        then Some (s\<lparr>rpcs := (rpcs s)(t := Done (Some ErrNoCredentials))\<rparr>)
      else Some (s\<lparr>rpcs := (rpcs s)(t := AwaitLock)\<rparr>))"
| "refresh_step (LockRefreshMu t) s =
     (if rpcs s t \<noteq> AwaitLock \<or> refreshMu s \<noteq> None then None
      else Some (s\<lparr>refreshMu := Some t, rpcs := (rpcs s)(t := Locked)\<rparr>))"
| "refresh_step (DoubleCheck t) s =
     (if rpcs s t \<noteq> Locked then None
      else if \<not> tokenNeedsRefresh (client s) (clock s)
        then Some (s\<lparr>refreshMu := None, rpcs := (rpcs s)(t := Done None)\<rparr>)
      else Some (s\<lparr>rpcs := (rpcs s)(t := Refreshing)\<rparr>))"
| "refresh_step (FinishRefresh t srv) s =
     (if rpcs s t \<noteq> Refreshing then None
      else (case refreshToken (client s) (clock s) srv of
              (c', r) \<Rightarrow> Some (s\<lparr>client := c', refreshMu := None, rpcs := (rpcs s)(t := Done r)\<rparr>)))"

fun refresh_run :: "raction list \<Rightarrow> refresh_state \<Rightarrow> refresh_state option" where
  "refresh_run [] s = Some s"
| "refresh_run (a # as) s =
     (case refresh_step a s of None \<Rightarrow> None | Some s' \<Rightarrow> refresh_run as s')"

text \<open>
  \<open>has_check as\<close>: a caller checks the refresh predicate (line 214 or line 228) in
  the execution \<open>as\<close>; \<open>until_last_check as\<close>: the time that passes in \<open>as\<close> before
  the last such check.
\<close>

fun has_check :: "raction list \<Rightarrow> bool" where
  "has_check [] = False"
| "has_check (FastPath t # as) = True"
| "has_check (DoubleCheck t # as) = True"
| "has_check (Tick d # as) = has_check as"
| "has_check (LockRefreshMu t # as) = has_check as"
| "has_check (FinishRefresh t srv # as) = has_check as"

fun until_last_check :: "raction list \<Rightarrow> int" where
  "until_last_check [] = 0"
| "until_last_check (Tick d # as) = (if has_check as then int d + until_last_check as else 0)"
| "until_last_check (FastPath t # as) = until_last_check as"
| "until_last_check (LockRefreshMu t # as) = until_last_check as"
| "until_last_check (DoubleCheck t # as) = until_last_check as"
| "until_last_check (FinishRefresh t srv # as) = until_last_check as"

text \<open>
  \<open>renews c srv\<close>: the server answers the login of the stored credentials with
  status 200 and a readable body within the size limit that is not empty once
  trimmed; \<open>first_renews c as\<close>: the first login request that ends in the execution
  (if one does) is answered so.
\<close>

definition renews :: "Client \<Rightarrow> authenticator \<Rightarrow> bool" where
  "renews c srv =
     (case credentials c of
        None \<Rightarrow> False
      | Some creds \<Rightarrow>
          (case srv (username creds) (password creds) (authString creds) of
             RequestNotCreated \<Rightarrow> False
           | TransportError \<Rightarrow> False
           | Response status body \<Rightarrow>
               status = StatusOK \<and>
               (case ReadAll_LimitReader body (maxTokenSize + 1) of
                  Inl e \<Rightarrow> False
                | Inr tok \<Rightarrow> length tok \<le> maxTokenSize \<and> TrimSpace tok \<noteq> [])))"

fun first_renews :: "Client \<Rightarrow> raction list \<Rightarrow> bool" where
  "first_renews c [] = True"
| "first_renews c (FinishRefresh t srv # as) = renews c srv"
| "first_renews c (Tick d # as) = first_renews c as"
| "first_renews c (FastPath t # as) = first_renews c as"
| "first_renews c (LockRefreshMu t # as) = first_renews c as"
| "first_renews c (DoubleCheck t # as) = first_renews c as"

text \<open>
  \<open>checks_in_time c as\<close>: every check of the refresh predicate made after the first
  login request of the execution has ended is made while the token installed then
  (which expires \<open>tokenLifetime\<close> later) is not yet within \<open>refreshThreshold\<close> of its
  expiry: the time from the end of that request to the last check, plus
  \<open>refreshThreshold\<close>, is at most \<open>tokenLifetime\<close>.
\<close>

fun checks_in_time :: "Client \<Rightarrow> raction list \<Rightarrow> bool" where
  "checks_in_time c [] = True"
| "checks_in_time c (FinishRefresh t srv # as) =
     (\<not> has_check as \<or> until_last_check as + refreshThreshold c \<le> tokenLifetime c)"
| "checks_in_time c (Tick d # as) = checks_in_time c as"
| "checks_in_time c (FastPath t # as) = checks_in_time c as"
| "checks_in_time c (LockRefreshMu t # as) = checks_in_time c as"
| "checks_in_time c (DoubleCheck t # as) = checks_in_time c as"

text \<open>
  The invariant of an execution that starts from client \<open>c\<close> at time \<open>t0\<close>, with the
  actions \<open>bs\<close> still to come: the configuration is the initial one, exactly the
  holder of \<^verbatim>\<open>refreshMu\<close> is in the locked section, every caller that returned got
  nil, and either no login request was sent yet and the token is the initial one
  (and the first request to come will be answered with a token, the checks after it
  made in time), or exactly one was sent and the token it installed does not need a
  refresh at any check still to come.
\<close>

definition refresh_inv :: "Client \<Rightarrow> int \<Rightarrow> raction list \<Rightarrow> refresh_state \<Rightarrow> bool" where
  "refresh_inv c t0 bs s =
     (credentials (client s) = credentials c \<and> tokenLifetime (client s) = tokenLifetime c \<and>
      refreshThreshold (client s) = refreshThreshold c \<and> autoRefresh (client s) = autoRefresh c \<and>
      t0 \<le> clock s \<and>
      (\<forall>t. (rpcs s t = Locked \<or> rpcs s t = Refreshing) = (refreshMu s = Some t)) \<and>
      (\<forall>t r. rpcs s t = Done r \<longrightarrow> r = None) \<and>
      ((httpCalls (client s) = httpCalls c \<and> token (client s) = token c \<and>
        tokenExpiry (client s) = tokenExpiry c \<and>
        (tokenNeedsRefresh c t0 \<longrightarrow> (\<forall>t. rpcs s t \<noteq> Done None)) \<and>
        first_renews c bs \<and> checks_in_time c bs)
       \<or>
       (httpCalls (client s) = httpCalls c + 1 \<and> token (client s) \<noteq> [] \<and>
        (has_check bs \<longrightarrow>
           clock s + until_last_check bs + refreshThreshold c \<le> tokenExpiry (client s)) \<and>
        (\<forall>t. rpcs s t \<noteq> Refreshing))))"

subsection \<open>The gate's invariant and concrete executions\<close>

text \<open>
  The callers that hold the slot, and the invariant of the executions: the closed
  channel is closed exactly when the once has fired, nothing has panicked, and the
  slot buffers one value exactly when one caller holds it, and none otherwise.
\<close>

definition holders :: "gate_state \<Rightarrow> nat set" where
  "holders s = {t. pcs s t = Holding}"

definition gate_inv :: "gate_state \<Rightarrow> bool" where
  "gate_inv s =
     (closed_ch (gate s) = closeOnce (gate s) \<and> \<not> panicked s \<and>
      ((sem (gate s) = 0 \<and> holders s = {}) \<or> (sem (gate s) = 1 \<and> (\<exists>h. holders s = {h}))))"

text \<open>
  Three executions from the new queue: caller 0 acquires and caller 1 reaches the
  select; the same followed by \<^verbatim>\<open>Close\<close>; and \<^verbatim>\<open>Close\<close> followed by an \<^verbatim>\<open>Acquire\<close>
  of caller 0 whose context has been cancelled. Each with the state it ends in.
\<close>

definition two_callers :: "action list" where
  "two_callers =
     [AcquireCall 0, AcquireClosedCheck 0, AcquireSelect 0 SendSem,
      AcquireCall 1, AcquireClosedCheck 1]"

definition two_callers_state :: gate_state where
  "two_callers_state =
     \<lparr>gate = \<lparr>sem = 1, closed_ch = False, closeOnce = False\<rparr>,
      pcs = (\<lambda>t. Idle)(0 := Holding, 1 := Waiting), ctxs = (\<lambda>t. None), panicked = False\<rparr>"

definition waiting_or_holding :: "pc \<Rightarrow> bool" where
  "waiting_or_holding p = (p = Waiting \<or> p = Holding)"

definition closed_while_held :: "action list" where
  "closed_while_held = two_callers @ [CloseCall]"

definition closed_while_held_state :: gate_state where
  "closed_while_held_state =
     \<lparr>gate = \<lparr>sem = 1, closed_ch = True, closeOnce = True\<rparr>,
      pcs = (\<lambda>t. Idle)(0 := Holding, 1 := Waiting), ctxs = (\<lambda>t. None), panicked = False\<rparr>"

definition closed_then_cancelled :: "action list" where
  "closed_then_cancelled = [CloseCall, CtxFire 0 Canceled, AcquireCall 0]"

definition closed_then_cancelled_state :: gate_state where
  "closed_then_cancelled_state =
     \<lparr>gate = \<lparr>sem = 0, closed_ch = True, closeOnce = True\<rparr>,
      pcs = (\<lambda>t. Idle)(0 := Failed (ContextError Canceled)),
      ctxs = (\<lambda>t. None)(0 := Some Canceled), panicked = False\<rparr>"

subsection \<open>The bucket invariant and concrete buckets\<close>

text \<open>
  Buckets of rate 3, 2 and 10 created at time 0 and drained at once by \<^verbatim>\<open>Allow\<close>,
  the invariant of the data model, a bucket of rate 10 that holds 23/64 of a token,
  the drained bucket of rate 10 after calls of \<^verbatim>\<open>Allow\<close> at 30, 60 and 90 ms, and a
  bucket of the rate 1.9999999999 after one \<^verbatim>\<open>Allow\<close>.
\<close>

definition drained3 :: Limiter where
  "drained3 = fst (Allow (fst (Allow (fst (Allow (ratelimit_New (Finite 3) 0) 0)) 0)) 0)"

definition drained2 :: Limiter where
  "drained2 = fst (Allow (fst (Allow (ratelimit_New (Finite 2) 0) 0)) 0)"

definition take_now :: "Limiter \<Rightarrow> Limiter" where
  "take_now l = fst (Allow l 0)"

definition drained10 :: Limiter where
  "drained10 =
     take_now (take_now (take_now (take_now (take_now (take_now (take_now (take_now (take_now
       (take_now (ratelimit_New (Finite 10) 0))))))))))"

definition limiter_inv :: "Limiter \<Rightarrow> bool" where
  "limiter_inv l = (fle (Finite 0) (tokens l) \<and> fle (tokens l) (maxTokens l))"

definition partly_filled :: Limiter where
  "partly_filled =
     \<lparr>tokens = Finite (23 / 64), maxTokens = Finite 10, refillRate = Finite 10, lastRefill = 0\<rparr>"

definition dripped :: Limiter where
  "dripped = fst (Allow (fst (Allow (fst (Allow drained10 30000000)) 60000000)) 90000000)"

definition odd_rate :: float64 where
  "odd_rate = round_float64 (19999999999 / 10000000000)"

definition odd_bucket :: Limiter where
  "odd_bucket = fst (Allow (ratelimit_New odd_rate 0) 0)"

subsection \<open>Concrete sessions\<close>

text \<open>
  A server that answers every login with the given status and body, and one
  that answers with status 200 and a body whose reading fails after the given
  bytes; a client
  logged in at time 0 with the default configuration; the environment of a call in
  which every reading of the clock is \<open>t\<close>; a body of 65537 bytes; a gate entry with
  a live context that takes the slot; and the logged-in client with a bucket of rate
  2 drained at one minute.
\<close>

definition fixed_server :: "nat \<Rightarrow> string \<Rightarrow> authenticator" where
  "fixed_server status bytes u p a = Response status (HttpBody bytes False)"

definition logged_in :: Client where
  "logged_in =
     storeCredentials (setTokenWithExpiry client_New ''tok0'' (0 + defaultTokenLifetime))
       ''user'' ''pass'' []"

definition unreadable_server :: "string \<Rightarrow> authenticator" where
  "unreadable_server bytes u p a = Response 200 (HttpBody bytes True)"

definition env_at :: "int \<Rightarrow> authenticator \<Rightarrow> session_env" where
  "env_at t srv = \<lparr>now_fast = t, now_locked = t, now_login = t, auth = srv\<rparr>"

definition big_body :: string where
  "big_body = replicate 65537 (CHR ''a'')"

definition free_gate :: gate_env where
  "free_gate = \<lparr>ctx_entry = None, ctx_select = None, chosen = SendSem\<rparr>"

definition throttled :: Client where
  "throttled =
     logged_in\<lparr>rateLimiter :=
       Some (fst (Allow (fst (Allow (ratelimit_New (Finite 2) (60 * Second)) (60 * Second))) (60 * Second)))\<rparr>"

subsection \<open>Concrete contended refreshes\<close>

text \<open>
  The scenario of the specification and of the repository's test
  \<^verbatim>\<open>TestClient_EnsureValidToken_ConcurrentRefresh\<close>: lifetime 100 ms, threshold
  90 ms, a login at time 0 and five callers that contend at 20 ms, the login request
  taking 50 ms. The same client with auto-refresh disabled, and two callers of
  which the first gets status 500 for its login request. And a client whose token
  lives one minute under the default threshold of five minutes.
\<close>

definition Millisecond :: int where
  "Millisecond = 1000000"

definition short_session :: Client where
  "short_session =
     storeCredentials
       (setTokenWithExpiry
          (WithRefreshThreshold (90 * Millisecond)
             (WithTokenLifetime (100 * Millisecond) client_New))
          ''tok0'' (0 + 100 * Millisecond))
       ''user'' ''pass'' []"

definition contenders :: "raction list" where
  "contenders =
     [FastPath 0, FastPath 1, FastPath 2, FastPath 3, FastPath 4,
      LockRefreshMu 1, DoubleCheck 1, Tick 50000000,
      FinishRefresh 1 (fixed_server 200 ''tok1''),
      LockRefreshMu 0, DoubleCheck 0, LockRefreshMu 2, Tick 1000000, DoubleCheck 2,
      LockRefreshMu 3, DoubleCheck 3, LockRefreshMu 4, DoubleCheck 4]"

definition contenders_state :: refresh_state where
  "contenders_state =
     \<lparr>client = short_session\<lparr>httpCalls := 1, token := ''tok1'', tokenExpiry := 170 * Millisecond\<rparr>,
      refreshMu = None, clock = 71 * Millisecond,
      rpcs = (\<lambda>t. NotCalled)(0 := Done None, 1 := Done None, 2 := Done None, 3 := Done None,
                             4 := Done None)\<rparr>"

definition manual_session :: Client where
  "manual_session = WithAutoRefresh False short_session"

definition manual_state :: refresh_state where
  "manual_state =
     \<lparr>client = manual_session, refreshMu = None, clock = 20 * Millisecond,
      rpcs = (\<lambda>t. NotCalled)(0 := Done (Some ErrNoCredentials))\<rparr>"

definition retried :: "raction list" where
  "retried =
     [FastPath 0, FastPath 1, LockRefreshMu 0, DoubleCheck 0,
      FinishRefresh 0 (fixed_server 500 []), LockRefreshMu 1, DoubleCheck 1,
      FinishRefresh 1 (fixed_server 200 ''tok1'')]"

definition retried_state :: refresh_state where
  "retried_state =
     \<lparr>client = short_session\<lparr>httpCalls := 2, token := ''tok1'', tokenExpiry := 120 * Millisecond\<rparr>,
      refreshMu = None, clock = 20 * Millisecond,
      rpcs = (\<lambda>t. NotCalled)(0 := Done (Some (APIError 500)), 1 := Done None)\<rparr>"

definition minute_session :: Client where
  "minute_session =
     storeCredentials
       (setTokenWithExpiry (WithTokenLifetime (60 * Second) client_New) ''tok0'' (0 + 60 * Second))
       ''user'' ''pass'' []"

definition two_contenders :: "raction list" where
  "two_contenders =
     [FastPath 0, FastPath 1, LockRefreshMu 0, DoubleCheck 0,
      FinishRefresh 0 (fixed_server 200 ''tok1''), LockRefreshMu 1, DoubleCheck 1,
      FinishRefresh 1 (fixed_server 200 ''tok2'')]"

definition two_contenders_state :: refresh_state where
  "two_contenders_state =
     \<lparr>client = minute_session\<lparr>httpCalls := 2, token := ''tok2'', tokenExpiry := 60 * Second\<rparr>,
      refreshMu = None, clock = 0,
      rpcs = (\<lambda>t. NotCalled)(0 := Done None, 1 := Done None)\<rparr>"

section \<open>Proofs: the serialization gate\<close>

lemma holders_other:
  "p \<noteq> Holding \<Longrightarrow> pcs s t \<noteq> Holding \<Longrightarrow> holders (s\<lparr>pcs := (pcs s)(t := p)\<rparr>) = holders s"
  by (auto simp: holders_def)

lemma holders_acquire:
  "holders (s\<lparr>gate := q, pcs := (pcs s)(t := Holding)\<rparr>) = insert t (holders s)"
  by (auto simp: holders_def)

lemma holders_release:
  "holders (s\<lparr>gate := q, pcs := (pcs s)(t := Idle)\<rparr>) = holders s - {t}"
  by (auto simp: holders_def)

lemma holders_frame [simp]:
  "holders (s\<lparr>gate := q\<rparr>) = holders s"
  "holders (s\<lparr>ctxs := c\<rparr>) = holders s"
  "holders (s\<lparr>panicked := b\<rparr>) = holders s"
  by (simp_all add: holders_def)

lemma gate_inv_init: "gate_inv gate_init"
  by (simp add: gate_inv_def gate_init_def queue_New_def holders_def)

lemma outside_not_Holding: "outside p \<Longrightarrow> p \<noteq> Holding"
  by (auto simp: outside_def)

lemma gate_inv_step:
  assumes "gate_inv s" and "gate_step a s = Some s'"
  shows "gate_inv s'"
proof (cases a)
  case (AcquireCall t)
  with assms show ?thesis
    by (auto simp: gate_inv_def holders_other outside_not_Holding split: if_splits option.splits)
next
  case (AcquireClosedCheck t)
  with assms show ?thesis
    by (auto simp: gate_inv_def holders_other split: if_splits)
next
  case (AcquireSelect t k)
  with assms show ?thesis
    by (cases k)
       (auto simp: gate_inv_def select_acquire_def sem_cap_def holders_other holders_acquire
             split: if_splits option.splits)
next
  case (ReleaseCall t)
  with assms have h: "pcs s t = Holding" "\<not> panicked s"
    by (auto split: if_splits)
  then have "t \<in> holders s"
    by (simp add: holders_def)
  with assms(1) have one: "sem (gate s) = 1" "holders s = {t}"
    by (auto simp: gate_inv_def)
  with assms ReleaseCall h have "s' = s\<lparr>gate := (gate s)\<lparr>sem := 0\<rparr>, pcs := (pcs s)(t := Idle)\<rparr>"
    by (simp add: Release_def)
  with assms(1) one show ?thesis
    by (simp add: gate_inv_def holders_release)
next
  case CloseCall
  with assms show ?thesis
    by (auto simp: gate_inv_def Close_def split: if_splits)
next
  case (CtxFire t e)
  with assms show ?thesis
    by (auto simp: gate_inv_def split: if_splits)
next
  case (CtxFresh t)
  with assms show ?thesis
    by (auto simp: gate_inv_def split: if_splits)
qed

lemma gate_inv_run:
  "gate_inv s \<Longrightarrow> gate_run as s = Some s' \<Longrightarrow> gate_inv s'"
proof (induction as arbitrary: s)
  case Nil
  then show ?case by simp
next
  case (Cons a as)
  then show ?case
    by (auto split: option.splits dest: gate_inv_step)
qed

lemma gate_inv_reachable:
  "gate_run as gate_init = Some s \<Longrightarrow> gate_inv s"
  using gate_inv_init gate_inv_run by blast

lemma gate_inv_unique:
  assumes "gate_inv s" and "pcs s t = Holding" and "pcs s t' = Holding"
  shows "t = t'"
proof -
  have "t \<in> holders s" and "t' \<in> holders s"
    using assms by (simp_all add: holders_def)
  moreover have "holders s = {} \<or> (\<exists>h. holders s = {h})"
    using assms(1) by (auto simp: gate_inv_def)
  ultimately show ?thesis by auto
qed

lemma gate_inv_held:
  "gate_inv s \<Longrightarrow> pcs s h = Holding \<Longrightarrow> sem (gate s) = 1"
  by (auto simp: gate_inv_def holders_def)

lemma gate_inv_free:
  "gate_inv s \<Longrightarrow> sem (gate s) = 0 \<Longrightarrow> pcs s t \<noteq> Holding"
  by (auto simp: gate_inv_def holders_def)

lemma gate_inv_sem: "gate_inv s \<Longrightarrow> sem (gate s) \<le> sem_cap"
  by (auto simp: gate_inv_def sem_cap_def)

lemma acquire_success_step:
  assumes "gate_step (AcquireSelect t k) s = Some s'" and "pcs s' t = Holding"
  shows "k = SendSem \<and> sem (gate s) = 0 \<and> sem (gate s') = 1"
  using assms
  by (cases k) (auto simp: select_acquire_def sem_cap_def split: if_splits option.splits)

lemma step_keeps_holder:
  assumes "gate_step a s = Some s'" and "pcs s h = Holding" and "a \<noteq> ReleaseCall h"
  shows "pcs s' h = Holding"
proof (cases a)
  case (AcquireSelect t k)
  with assms show ?thesis
    by (cases k) (auto simp: select_acquire_def split: if_splits option.splits)
next
  case (ReleaseCall t)
  with assms show ?thesis
    by (auto simp: Release_def split: if_splits)
qed (use assms in \<open>auto simp: outside_def Close_def split: if_splits option.splits\<close>)

lemma release_step:
  assumes "gate_inv s" and "pcs s h = Holding"
  shows "gate_step (ReleaseCall h) s = Some (s\<lparr>gate := (gate s)\<lparr>sem := 0\<rparr>, pcs := (pcs s)(h := Idle)\<rparr>)"
  using assms gate_inv_held [OF assms]
  by (simp add: Release_def gate_inv_def)

text \<open>
  Claim C1. In every state the gate can reach, the slot buffers at most one value and
  at most one caller is between a successful \<^verbatim>\<open>Acquire\<close> and its \<^verbatim>\<open>Release\<close>. An
  \<^verbatim>\<open>Acquire\<close> that succeeds finds the slot free and leaves it held. While a caller
  holds the slot, the send on \<^verbatim>\<open>sem\<close> cannot proceed for anyone, every action other
  than the holder's \<^verbatim>\<open>Release\<close> leaves the holder the only holder, and the holder's
  \<^verbatim>\<open>Release\<close> frees the slot without a panic.
\<close>

theorem gate_mutual_exclusion:
  assumes "gate_run as gate_init = Some s"
  shows "sem (gate s) \<le> sem_cap \<and>
         (\<forall>t t'. pcs s t = Holding \<and> pcs s t' = Holding \<longrightarrow> t = t') \<and>
         (\<forall>t k s'. gate_step (AcquireSelect t k) s = Some s' \<and> pcs s' t = Holding \<longrightarrow>
             sem (gate s) = 0 \<and> (\<forall>u. pcs s u \<noteq> Holding) \<and> sem (gate s') = 1) \<and>
         (\<forall>h. pcs s h = Holding \<longrightarrow>
             sem (gate s) = 1 \<and>
             (\<forall>t. gate_step (AcquireSelect t SendSem) s = None) \<and>
             (\<forall>a s'. gate_step a s = Some s' \<and> a \<noteq> ReleaseCall h \<longrightarrow>
                 pcs s' h = Holding \<and> (\<forall>t. t \<noteq> h \<longrightarrow> pcs s' t \<noteq> Holding)) \<and>
             (\<exists>s'. gate_step (ReleaseCall h) s = Some s' \<and> sem (gate s') = 0 \<and>
                    \<not> panicked s' \<and> (\<forall>t. pcs s' t \<noteq> Holding)))"
proof -
  have inv: "gate_inv s"
    using assms by (rule gate_inv_reachable)
  have p1: "sem (gate s) \<le> sem_cap"
    using inv by (rule gate_inv_sem)
  have p2: "\<forall>t t'. pcs s t = Holding \<and> pcs s t' = Holding \<longrightarrow> t = t'"
    using inv gate_inv_unique by blast
  have p3: "\<forall>t k s'. gate_step (AcquireSelect t k) s = Some s' \<and> pcs s' t = Holding \<longrightarrow>
             sem (gate s) = 0 \<and> (\<forall>u. pcs s u \<noteq> Holding) \<and> sem (gate s') = 1"
    using acquire_success_step gate_inv_free [OF inv] by blast
  have p4: "sem (gate s) = 1 \<and>
             (\<forall>t. gate_step (AcquireSelect t SendSem) s = None) \<and>
             (\<forall>a s'. gate_step a s = Some s' \<and> a \<noteq> ReleaseCall h \<longrightarrow>
                 pcs s' h = Holding \<and> (\<forall>t. t \<noteq> h \<longrightarrow> pcs s' t \<noteq> Holding)) \<and>
             (\<exists>s'. gate_step (ReleaseCall h) s = Some s' \<and> sem (gate s') = 0 \<and>
                    \<not> panicked s' \<and> (\<forall>t. pcs s' t \<noteq> Holding))"
    if h: "pcs s h = Holding" for h
  proof -
    have held: "sem (gate s) = 1"
      using inv h by (rule gate_inv_held)
    have blocked: "\<forall>t. gate_step (AcquireSelect t SendSem) s = None"
      using held by (simp add: select_acquire_def sem_cap_def)
    have keeps: "\<forall>a s'. gate_step a s = Some s' \<and> a \<noteq> ReleaseCall h \<longrightarrow>
                 pcs s' h = Holding \<and> (\<forall>t. t \<noteq> h \<longrightarrow> pcs s' t \<noteq> Holding)"
    proof (intro allI impI)
      fix a s'
      assume a: "gate_step a s = Some s' \<and> a \<noteq> ReleaseCall h"
      then have hs': "pcs s' h = Holding"
        using step_keeps_holder h by blast
      have "gate_inv s'"
        using inv a gate_inv_step by blast
      then show "pcs s' h = Holding \<and> (\<forall>t. t \<noteq> h \<longrightarrow> pcs s' t \<noteq> Holding)"
        using hs' gate_inv_unique by blast
    qed
    let ?s' = "s\<lparr>gate := (gate s)\<lparr>sem := 0\<rparr>, pcs := (pcs s)(h := Idle)\<rparr>"
    have rel: "gate_step (ReleaseCall h) s = Some ?s'"
      using inv h by (rule release_step)
    have "gate_inv ?s'"
      using inv rel by (rule gate_inv_step)
    then have "\<forall>t. pcs ?s' t \<noteq> Holding"
      using gate_inv_free [of ?s'] by simp
    moreover have "\<not> panicked ?s'"
      using inv by (simp add: gate_inv_def)
    ultimately have "\<exists>s'. gate_step (ReleaseCall h) s = Some s' \<and> sem (gate s') = 0 \<and>
                    \<not> panicked s' \<and> (\<forall>t. pcs s' t \<noteq> Holding)"
      using rel by (intro exI [of _ ?s']) simp
    with held blocked keeps show ?thesis by blast
  qed
  from p1 p2 p3 p4 show ?thesis by blast
qed

lemma two_callers_run: "gate_run two_callers gate_init = Some two_callers_state"
  by (simp add: two_callers_def two_callers_state_def gate_init_def queue_New_def outside_def
      select_acquire_def sem_cap_def fun_upd_twist)

text \<open>
  An execution for claim C1: caller 0 acquires the slot, caller 1 reaches the select
  and cannot take the slot.
\<close>

theorem gate_mutual_exclusion_witness:
  "gate_run two_callers gate_init = Some two_callers_state \<and>
   pcs two_callers_state 0 = Holding \<and> pcs two_callers_state 1 = Waiting \<and>
   sem (gate two_callers_state) = 1 \<and>
   gate_step (AcquireSelect 1 SendSem) two_callers_state = None"
  using gate_mutual_exclusion [OF two_callers_run] two_callers_run
  by (simp add: two_callers_state_def select_acquire_def sem_cap_def)

lemma gate_run_append:
  "gate_run (as @ bs) s = (case gate_run as s of None \<Rightarrow> None | Some s' \<Rightarrow> gate_run bs s')"
  by (induction as arbitrary: s) (auto split: option.splits)

lemma close_step:
  assumes "gate_inv s"
  shows "\<exists>s1. gate_step CloseCall s = Some s1 \<and> \<not> panicked s1 \<and> closed_ch (gate s1) \<and>
              gate_step CloseCall s1 = Some s1 \<and> pcs s1 = pcs s \<and> sem (gate s1) = sem (gate s)"
proof (cases "closeOnce (gate s)")
  case True
  with assms have "gate_step CloseCall s = Some (s\<lparr>gate := gate s\<rparr>)"
    by (simp add: Close_def gate_inv_def)
  with assms True show ?thesis
    by (simp add: gate_inv_def)
next
  case False
  let ?s1 = "s\<lparr>gate := (gate s)\<lparr>closed_ch := True, closeOnce := True\<rparr>\<rparr>"
  from assms False have "gate_step CloseCall s = Some ?s1"
    by (simp add: Close_def gate_inv_def)
  moreover from assms have "gate_step CloseCall ?s1 = Some ?s1"
    by (simp add: Close_def gate_inv_def)
  moreover from assms have "\<not> panicked ?s1"
    by (simp add: gate_inv_def)
  ultimately show ?thesis
    by (intro exI [of _ ?s1]) simp
qed

lemma closed_flag_change:
  assumes "gate_step a s = Some s'" and "closed_ch (gate s') \<noteq> closed_ch (gate s)"
  shows "a = CloseCall \<and> \<not> closed_ch (gate s) \<and> closed_ch (gate s')"
proof (cases a)
  case (AcquireSelect t k)
  with assms show ?thesis
    by (cases k) (auto simp: select_acquire_def split: if_splits option.splits)
next
  case (ReleaseCall t)
  with assms show ?thesis
    by (auto simp: Release_def split: if_splits)
next
  case CloseCall
  with assms show ?thesis
    by (auto simp: Close_def split: if_splits)
qed (use assms in \<open>auto split: if_splits option.splits\<close>)

lemma closed_step_mono:
  "gate_step a s = Some s' \<Longrightarrow> closed_ch (gate s) \<Longrightarrow> closed_ch (gate s')"
  using closed_flag_change by blast

lemma closed_no_entry_step:
  assumes "gate_step a s = Some s'" and "closed_ch (gate s)" and "\<not> waiting_or_holding (pcs s t)"
  shows "\<not> waiting_or_holding (pcs s' t)"
proof (cases a)
  case (AcquireSelect u k)
  with assms show ?thesis
    by (cases k)
       (auto simp: select_acquire_def waiting_or_holding_def split: if_splits option.splits)
next
  case (ReleaseCall u)
  with assms show ?thesis
    by (auto simp: Release_def waiting_or_holding_def split: if_splits)
next
  case CloseCall
  with assms show ?thesis
    by (auto simp: Close_def waiting_or_holding_def split: if_splits)
qed (use assms in \<open>auto simp: waiting_or_holding_def split: if_splits option.splits\<close>)

lemma closed_run:
  assumes "gate_run bs s = Some s'" and "closed_ch (gate s)"
  shows "closed_ch (gate s') \<and>
         (\<forall>t. \<not> waiting_or_holding (pcs s t) \<longrightarrow> \<not> waiting_or_holding (pcs s' t))"
  using assms
proof (induction bs arbitrary: s)
  case Nil
  then show ?case by simp
next
  case (Cons b bs)
  from Cons.prems obtain s1 where s1: "gate_step b s = Some s1" "gate_run bs s1 = Some s'"
    by (auto split: option.splits)
  have c1: "closed_ch (gate s1)"
    using s1(1) Cons.prems(2) by (rule closed_step_mono)
  from Cons.IH [OF s1(2) c1] closed_no_entry_step [OF s1(1) Cons.prems(2)]
  show ?case by blast
qed

lemma closed_acquire_call:
  assumes "gate_step (AcquireCall t) s = Some s'"
  shows "pcs s' t = (case ctxs s t of None \<Rightarrow> Checked | Some e \<Rightarrow> Failed (ContextError e))"
  using assms by (auto split: if_splits option.splits)

lemma closed_select:
  assumes "closed_ch (gate s)" and "sem (gate s) = 1" and "ctxs s t = None"
    and "gate_step (AcquireSelect t k) s = Some s'"
  shows "pcs s' t = Failed ErrQueueClosed"
  using assms
  by (cases k) (auto simp: select_acquire_def sem_cap_def split: if_splits)

text \<open>
  Claim C9, as amended. In every state the gate can reach: \<^verbatim>\<open>Close\<close> does not
  panic, leaves the gate closed, changes neither the slot nor any caller, and a
  second \<^verbatim>\<open>Close\<close> changes nothing; the closed flag changes only from false to true,
  and only by a \<^verbatim>\<open>Close\<close>. Once the gate is closed it stays closed in every
  continuation, nothing panics, and a caller that is not already waiting or holding
  never comes to wait or hold: an \<^verbatim>\<open>Acquire\<close> that starts returns the context's error
  when its context is already done (lines 39-41 come first) and the closed error
  otherwise. A caller already at the select is no longer blocked, since the receive
  from \<^verbatim>\<open>q.closed\<close> can proceed, and while the slot is held and its context is live
  that is the only case that can, so it returns the closed error. (The select is
  modelled as the language specification gives it: any communication that can
  proceed may be the one chosen.)
\<close>

theorem gate_close_final:
  assumes "gate_run as gate_init = Some s"
  shows "(\<exists>s1. gate_step CloseCall s = Some s1 \<and> \<not> panicked s1 \<and> closed_ch (gate s1) \<and>
              gate_step CloseCall s1 = Some s1 \<and> pcs s1 = pcs s \<and> sem (gate s1) = sem (gate s)) \<and>
         (\<forall>a s'. gate_step a s = Some s' \<and> closed_ch (gate s') \<noteq> closed_ch (gate s) \<longrightarrow>
              a = CloseCall \<and> \<not> closed_ch (gate s) \<and> closed_ch (gate s')) \<and>
         (closed_ch (gate s) \<longrightarrow>
            (\<forall>bs s'. gate_run bs s = Some s' \<longrightarrow>
                closed_ch (gate s') \<and> \<not> panicked s' \<and>
                (\<forall>t. \<not> waiting_or_holding (pcs s t) \<longrightarrow> \<not> waiting_or_holding (pcs s' t))) \<and>
            (\<forall>c k. Acquire (gate s) None c k = Some (Inl ErrQueueClosed)) \<and>
            (\<forall>e c k. Acquire (gate s) (Some e) c k = Some (Inl (ContextError e))) \<and>
            (\<forall>t s'. gate_step (AcquireCall t) s = Some s' \<longrightarrow>
                pcs s' t = (case ctxs s t of None \<Rightarrow> Checked | Some e \<Rightarrow> Failed (ContextError e))) \<and>
            (\<forall>t. pcs s t = Checked \<longrightarrow>
                gate_step (AcquireClosedCheck t) s = Some (s\<lparr>pcs := (pcs s)(t := Failed ErrQueueClosed)\<rparr>)) \<and>
            (\<forall>t. pcs s t = Waiting \<longrightarrow>
                gate_step (AcquireSelect t RecvClosed) s =
                  Some (s\<lparr>pcs := (pcs s)(t := Failed ErrQueueClosed)\<rparr>) \<and>
                (sem (gate s) = 1 \<and> ctxs s t = None \<longrightarrow>
                   (\<forall>k s'. gate_step (AcquireSelect t k) s = Some s' \<longrightarrow>
                       pcs s' t = Failed ErrQueueClosed))))"
proof -
  have inv: "gate_inv s"
    using assms by (rule gate_inv_reachable)
  have np: "\<not> panicked s"
    using inv by (simp add: gate_inv_def)
  have p1: "\<exists>s1. gate_step CloseCall s = Some s1 \<and> \<not> panicked s1 \<and> closed_ch (gate s1) \<and>
              gate_step CloseCall s1 = Some s1 \<and> pcs s1 = pcs s \<and> sem (gate s1) = sem (gate s)"
    using inv by (rule close_step)
  have p2: "\<forall>a s'. gate_step a s = Some s' \<and> closed_ch (gate s') \<noteq> closed_ch (gate s) \<longrightarrow>
              a = CloseCall \<and> \<not> closed_ch (gate s) \<and> closed_ch (gate s')"
    using closed_flag_change by blast
  have p3: "\<forall>bs s'. gate_run bs s = Some s' \<longrightarrow>
                closed_ch (gate s') \<and> \<not> panicked s' \<and>
                (\<forall>t. \<not> waiting_or_holding (pcs s t) \<longrightarrow> \<not> waiting_or_holding (pcs s' t))"
    if c: "closed_ch (gate s)"
  proof (intro allI impI)
    fix bs s'
    assume r: "gate_run bs s = Some s'"
    have "gate_inv s'"
      using inv r by (rule gate_inv_run)
    then have "\<not> panicked s'"
      by (simp add: gate_inv_def)
    with closed_run [OF r c]
    show "closed_ch (gate s') \<and> \<not> panicked s' \<and>
          (\<forall>t. \<not> waiting_or_holding (pcs s t) \<longrightarrow> \<not> waiting_or_holding (pcs s' t))"
      by blast
  qed
  have p4: "(\<forall>c k. Acquire (gate s) None c k = Some (Inl ErrQueueClosed)) \<and>
            (\<forall>e c k. Acquire (gate s) (Some e) c k = Some (Inl (ContextError e)))"
    if c: "closed_ch (gate s)"
    using c by (simp add: Acquire_def)
  have p5: "\<forall>t s'. gate_step (AcquireCall t) s = Some s' \<longrightarrow>
                pcs s' t = (case ctxs s t of None \<Rightarrow> Checked | Some e \<Rightarrow> Failed (ContextError e))"
    using closed_acquire_call by blast
  have p6: "\<forall>t. pcs s t = Checked \<longrightarrow>
                gate_step (AcquireClosedCheck t) s = Some (s\<lparr>pcs := (pcs s)(t := Failed ErrQueueClosed)\<rparr>)"
    if c: "closed_ch (gate s)"
    using c np by simp
  have p7: "\<forall>t. pcs s t = Waiting \<longrightarrow>
                gate_step (AcquireSelect t RecvClosed) s =
                  Some (s\<lparr>pcs := (pcs s)(t := Failed ErrQueueClosed)\<rparr>) \<and>
                (sem (gate s) = 1 \<and> ctxs s t = None \<longrightarrow>
                   (\<forall>k s'. gate_step (AcquireSelect t k) s = Some s' \<longrightarrow>
                       pcs s' t = Failed ErrQueueClosed))"
    if c: "closed_ch (gate s)"
    using c np closed_select by (auto simp: select_acquire_def)
  from p1 p2 p3 p4 p5 p6 p7 show ?thesis
    by blast
qed

lemma closed_while_held_run: "gate_run closed_while_held gate_init = Some closed_while_held_state"
  by (simp add: closed_while_held_def gate_run_append two_callers_run two_callers_state_def
      closed_while_held_state_def Close_def)

text \<open>
  An execution for claim C9: caller 0 holds the slot, caller 1 waits at the select,
  then the gate is closed. Caller 1 can only return the closed error.
\<close>

theorem gate_close_final_witness:
  "gate_run closed_while_held gate_init = Some closed_while_held_state \<and>
   closed_ch (gate closed_while_held_state) \<and>
   gate_step CloseCall closed_while_held_state = Some closed_while_held_state \<and>
   pcs closed_while_held_state 0 = Holding \<and>
   gate_step (AcquireSelect 1 RecvClosed) closed_while_held_state =
     Some (closed_while_held_state\<lparr>pcs := (pcs closed_while_held_state)(1 := Failed ErrQueueClosed)\<rparr>) \<and>
   gate_step (AcquireSelect 1 SendSem) closed_while_held_state = None \<and>
   Acquire (gate closed_while_held_state) None None SendSem = Some (Inl ErrQueueClosed)"
  using gate_close_final [OF closed_while_held_run] closed_while_held_run
  by (simp add: closed_while_held_state_def select_acquire_def sem_cap_def Close_def Acquire_def)

text \<open>
  Claim C9 as stated fails: after \<^verbatim>\<open>Close\<close>, an \<^verbatim>\<open>Acquire\<close> whose context is
  already cancelled returns \<^verbatim>\<open>context.Canceled\<close>, not the closed error.
\<close>

theorem gate_close_counterexample:
  "gate_run closed_then_cancelled gate_init = Some closed_then_cancelled_state \<and>
   closed_ch (gate closed_then_cancelled_state) \<and>
   pcs closed_then_cancelled_state 0 = Failed (ContextError Canceled) \<and>
   pcs closed_then_cancelled_state 0 \<noteq> Failed ErrQueueClosed \<and>
   Acquire (gate closed_then_cancelled_state) (Some Canceled) (Some Canceled) RecvClosed
     = Some (Inl (ContextError Canceled))"
  by (simp add: closed_then_cancelled_def closed_then_cancelled_state_def gate_init_def
      queue_New_def Close_def outside_def Acquire_def)

text \<open>
  Cancellation precedence: \<^verbatim>\<open>Acquire\<close> with a context that is already done returns
  the context's error whatever the state of the queue, also when the slot is free,
  and takes nothing.
\<close>

theorem acquire_cancelled_first:
  "Acquire q (Some e) c k = Some (Inl (ContextError e)) \<and>
   gate_step (AcquireCall t)
       \<lparr>gate = q, pcs = (\<lambda>u. Idle), ctxs = (\<lambda>u. Some e), panicked = False\<rparr>
     = Some \<lparr>gate = q, pcs = (\<lambda>u. Idle)(t := Failed (ContextError e)), ctxs = (\<lambda>u. Some e),
             panicked = False\<rparr>"
  by (simp add: Acquire_def outside_def)

text \<open>
  Release pairing: \<^verbatim>\<open>Release\<close> on a queue whose slot is free panics, every time.
\<close>

theorem release_without_acquire_panics:
  "Release queue_New = Inl (Panic ''queue: Release called without Acquire'') \<and>
   Release (q\<lparr>sem := 0\<rparr>) = Inl (Panic ''queue: Release called without Acquire'')"
  by (simp add: Release_def queue_New_def)

section \<open>Proofs: the token bucket\<close>

lemmas float64_eval =
  round_float64_def exponent_def bit_length.simps pow2_def round_half_even_def float64_of_int_def
  fsub_def signed_inf_def trunc_def fits_int64_def int64_of_float64_def minInt64_def
  maxInt64_def Sub_def quo_def rem_def Seconds_def Duration_of_float_def Second_def Let_def

lemma float64_of_int_Second: "float64_of_int Second = Finite 1000000000"
  by (simp add: float64_eval)

lemma drained3_eq:
  "drained3 = \<lparr>tokens = Finite 0, maxTokens = Finite 3, refillRate = Finite 3, lastRefill = 0\<rparr>"
  by (simp add: drained3_def Allow_def refill_def ratelimit_New_def float64_eval)

lemma drained2_eq:
  "drained2 = \<lparr>tokens = Finite 0, maxTokens = Finite 2, refillRate = Finite 2, lastRefill = 0\<rparr>"
  by (simp add: drained2_def Allow_def refill_def ratelimit_New_def float64_eval)

lemma drained10_eq:
  "drained10 = \<lparr>tokens = Finite 0, maxTokens = Finite 10, refillRate = Finite 10, lastRefill = 0\<rparr>"
  by (simp add: drained10_def take_now_def Allow_def refill_def ratelimit_New_def float64_eval)

lemma refill_fields:
  "tokens (refill l now)
     = (if flt (maxTokens l) (fadd (tokens l) (fmul (Seconds (Sub now (lastRefill l))) (refillRate l)))
        then maxTokens l
        else fadd (tokens l) (fmul (Seconds (Sub now (lastRefill l))) (refillRate l)))"
  "lastRefill (refill l now) = now"
  "maxTokens (refill l now) = maxTokens l"
  "refillRate (refill l now) = refillRate l"
  by (simp_all add: refill_def Let_def)

lemma trunc_bounds:
  "\<bar>real_of_int (trunc r)\<bar> \<le> \<bar>r\<bar> \<and> \<bar>r\<bar> < \<bar>real_of_int (trunc r)\<bar> + 1"
  by (simp add: trunc_def) linarith

text \<open>
  Claim C7, as amended. An access at clock reading \<open>now\<close> first refills: \<open>tokens\<close>
  becomes the lesser of \<open>maxTokens\<close> and \<open>tokens + elapsed * refillRate\<close>, with
  \<open>elapsed\<close> the seconds since \<open>lastRefill\<close> and the product and the sum rounded to
  \<^verbatim>\<open>float64\<close>, and \<open>lastRefill = now\<close>. If at least one token is then there,
  \<^verbatim>\<open>Allow\<close>, \<^verbatim>\<open>tryAcquireOrGetWaitTime\<close> and \<^verbatim>\<open>Wait\<close> take one, with a wait of
  zero. Otherwise \<^verbatim>\<open>Allow\<close> takes nothing and returns false, and when the wait
  computed is in the range of \<^verbatim>\<open>time.Duration\<close> and not zero,
  \<^verbatim>\<open>tryAcquireOrGetWaitTime\<close> takes nothing and returns it: the \<^verbatim>\<open>float64\<close>
  quotient \<open>(1 - tokens) / refillRate\<close>, multiplied by \<open>10\<^sup>9\<close> in \<^verbatim>\<open>float64\<close> and
  truncated towards zero to whole nanoseconds. Take and wait are decided by the one
  function, which runs under the limiter's mutex.
\<close>

theorem bucket_access:
  "tokens (refill l now)
     = (if flt (maxTokens l) (fadd (tokens l) (fmul (Seconds (Sub now (lastRefill l))) (refillRate l)))
        then maxTokens l
        else fadd (tokens l) (fmul (Seconds (Sub now (lastRefill l))) (refillRate l))) \<and>
   (\<forall>m t. maxTokens l = Finite m \<and>
          fadd (tokens l) (fmul (Seconds (Sub now (lastRefill l))) (refillRate l)) = Finite t \<longrightarrow>
      tokens (refill l now) = Finite (min m t)) \<and>
   (minInt64 \<le> now - lastRefill l \<and> now - lastRefill l \<le> maxInt64 \<longrightarrow>
      Sub now (lastRefill l) = now - lastRefill l) \<and>
   lastRefill (refill l now) = now \<and>
   maxTokens (refill l now) = maxTokens l \<and>
   refillRate (refill l now) = refillRate l \<and>
   (fle (Finite 1) (tokens (refill l now)) \<longrightarrow>
      tryAcquireOrGetWaitTime l now
        = ((refill l now)\<lparr>tokens := fsub (tokens (refill l now)) (Finite 1)\<rparr>, 0) \<and>
      Allow l now = ((refill l now)\<lparr>tokens := fsub (tokens (refill l now)) (Finite 1)\<rparr>, True) \<and>
      Wait l ((now, c) # rest)
        = Some ((refill l now)\<lparr>tokens := fsub (tokens (refill l now)) (Finite 1)\<rparr>, None)) \<and>
   (\<not> fle (Finite 1) (tokens (refill l now)) \<longrightarrow> Allow l now = (refill l now, False)) \<and>
   (\<forall>r. \<not> fle (Finite 1) (tokens (refill l now)) \<and>
        fmul (fdiv (fsub (Finite 1) (tokens (refill l now))) (refillRate l)) (Finite 1000000000)
          = Finite r \<and>
        minInt64 \<le> trunc r \<and> trunc r \<le> maxInt64 \<and> trunc r \<noteq> 0 \<longrightarrow>
      tryAcquireOrGetWaitTime l now = (refill l now, trunc r) \<and>
      \<bar>real_of_int (trunc r)\<bar> \<le> \<bar>r\<bar> \<and> \<bar>r\<bar> < \<bar>real_of_int (trunc r)\<bar> + 1)"
proof -
  let ?l1 = "refill l now"
  let ?sum = "fadd (tokens l) (fmul (Seconds (Sub now (lastRefill l))) (refillRate l))"
  have k1: "tokens ?l1 = (if flt (maxTokens l) ?sum then maxTokens l else ?sum)"
    by (rule refill_fields)
  have k2: "\<forall>m t. maxTokens l = Finite m \<and> ?sum = Finite t \<longrightarrow> tokens ?l1 = Finite (min m t)"
    by (auto simp: refill_fields(1) min_def)
  have k3: "minInt64 \<le> now - lastRefill l \<and> now - lastRefill l \<le> maxInt64 \<longrightarrow>
      Sub now (lastRefill l) = now - lastRefill l"
    by (simp add: Sub_def)
  have k4: "lastRefill ?l1 = now" and k5: "maxTokens ?l1 = maxTokens l"
    and k6: "refillRate ?l1 = refillRate l"
    by (rule refill_fields)+
  have k7: "fle (Finite 1) (tokens ?l1) \<longrightarrow>
      tryAcquireOrGetWaitTime l now = (?l1\<lparr>tokens := fsub (tokens ?l1) (Finite 1)\<rparr>, 0) \<and>
      Allow l now = (?l1\<lparr>tokens := fsub (tokens ?l1) (Finite 1)\<rparr>, True) \<and>
      Wait l ((now, c) # rest) = Some (?l1\<lparr>tokens := fsub (tokens ?l1) (Finite 1)\<rparr>, None)"
    by (simp add: tryAcquireOrGetWaitTime_def Allow_def Let_def)
  have k8: "\<not> fle (Finite 1) (tokens ?l1) \<longrightarrow> Allow l now = (?l1, False)"
    by (simp add: Allow_def Let_def)
  have k9: "\<forall>r. \<not> fle (Finite 1) (tokens ?l1) \<and>
        fmul (fdiv (fsub (Finite 1) (tokens ?l1)) (refillRate l)) (Finite 1000000000) = Finite r \<and>
        minInt64 \<le> trunc r \<and> trunc r \<le> maxInt64 \<and> trunc r \<noteq> 0 \<longrightarrow>
      tryAcquireOrGetWaitTime l now = (?l1, trunc r) \<and>
      \<bar>real_of_int (trunc r)\<bar> \<le> \<bar>r\<bar> \<and> \<bar>r\<bar> < \<bar>real_of_int (trunc r)\<bar> + 1"
    using trunc_bounds
    by (simp add: tryAcquireOrGetWaitTime_def Let_def refill_fields(4) float64_of_int_Second
        Duration_of_float_def int64_of_float64_def fits_int64_def)
  show ?thesis
    by (rule conjI [OF k1 conjI [OF k2 conjI [OF k3 conjI [OF k4 conjI [OF k5 conjI [OF k6
          conjI [OF k7 conjI [OF k8 k9]]]]]]]])
qed

lemma drained2_quarter:
  "refill drained2 250000000
     = \<lparr>tokens = Finite (1 / 2), maxTokens = Finite 2, refillRate = Finite 2, lastRefill = 250000000\<rparr>"
  by (simp add: drained2_eq refill_def float64_eval)

lemma drained2_half:
  "refill drained2 500000000
     = \<lparr>tokens = Finite 1, maxTokens = Finite 2, refillRate = Finite 2, lastRefill = 500000000\<rparr>"
  by (simp add: drained2_eq refill_def float64_eval)

lemma quarter_wait:
  "fmul (fdiv (fsub (Finite 1) (Finite (1 / 2))) (Finite 2)) (Finite 1000000000) = Finite 250000000"
  by (simp add: float64_eval)

text \<open>
  Claim C7 on a bucket of rate 2 drained at time 0: a quarter of a second later it
  holds half a token and the wait is 250 ms; half a second later it holds one token,
  which is taken.
\<close>

theorem bucket_access_witness:
  "tokens (refill drained2 250000000) = Finite (1 / 2) \<and>
   Allow drained2 250000000 = (refill drained2 250000000, False) \<and>
   tryAcquireOrGetWaitTime drained2 250000000 = (refill drained2 250000000, 250000000) \<and>
   tryAcquireOrGetWaitTime drained2 500000000
     = (\<lparr>tokens = Finite 0, maxTokens = Finite 2, refillRate = Finite 2, lastRefill = 500000000\<rparr>, 0)"
proof -
  note q = bucket_access [of drained2 250000000]
  note h = bucket_access [of drained2 500000000]
  have t: "tokens (refill drained2 250000000) = Finite (1 / 2)"
    by (simp add: drained2_quarter)
  have low: "\<not> fle (Finite 1) (tokens (refill drained2 250000000))"
    by (simp add: drained2_quarter)
  have rr: "refillRate drained2 = Finite 2"
    by (simp add: drained2_eq)
  have w: "fmul (fdiv (fsub (Finite 1) (tokens (refill drained2 250000000))) (refillRate drained2))
             (Finite 1000000000) = Finite 250000000"
    unfolding drained2_quarter rr by (simp add: quarter_wait)
  have tr: "trunc 250000000 = 250000000"
    by (simp add: trunc_def)
  have fits: "minInt64 \<le> trunc 250000000 \<and> trunc 250000000 \<le> maxInt64 \<and>
              trunc 250000000 \<noteq> 0"
    by (simp add: tr minInt64_def maxInt64_def)
  have a: "Allow drained2 250000000 = (refill drained2 250000000, False)"
    using q low by blast
  have b: "tryAcquireOrGetWaitTime drained2 250000000
             = (refill drained2 250000000, trunc 250000000)"
    using q low w fits by blast
  have full: "fle (Finite 1) (tokens (refill drained2 500000000))"
    by (simp add: drained2_half)
  have d: "tryAcquireOrGetWaitTime drained2 500000000
             = ((refill drained2 500000000)
                  \<lparr>tokens := fsub (tokens (refill drained2 500000000)) (Finite 1)\<rparr>, 0)"
    using h full by blast
  have e: "(refill drained2 500000000)\<lparr>tokens := fsub (tokens (refill drained2 500000000)) (Finite 1)\<rparr>
             = \<lparr>tokens = Finite 0, maxTokens = Finite 2, refillRate = Finite 2,
                lastRefill = 500000000\<rparr>"
    by (simp add: drained2_half float64_eval)
  from t a b d show ?thesis
    unfolding e tr by simp
qed

text \<open>
  Claim C7 as stated fails: for a drained bucket of rate 3 the wait returned is
  333333333 ns, which is neither 1/3 second nor, read in seconds by
  \<^verbatim>\<open>Duration.Seconds()\<close>, the \<^verbatim>\<open>float64\<close> quotient \<open>(1 - tokens) / refillRate\<close>.
\<close>

theorem bucket_access_counterexample:
  "tokens (refill drained3 0) = Finite 0 \<and>
   refillRate (refill drained3 0) = Finite 3 \<and>
   tryAcquireOrGetWaitTime drained3 0 = (refill drained3 0, 333333333) \<and>
   real_of_int 333333333 / real_of_int Second \<noteq> (1 - 0) / 3 \<and>
   Seconds 333333333
     \<noteq> fdiv (fsub (Finite 1) (tokens (refill drained3 0))) (refillRate (refill drained3 0))"
  by (simp add: drained3_eq tryAcquireOrGetWaitTime_def refill_def float64_eval)

text \<open>
  The rounding of \<^verbatim>\<open>float64\<close> shows in the results. For a bucket of rate 10 that
  holds 23/64 of a token the wait returned is 64062499 ns, where \<open>(1 - 23/64) / 10\<close>
  seconds are 64062500 ns. And the drained bucket of rate 10, after calls of
  \<^verbatim>\<open>Allow\<close> at 30, 60 and 90 ms, holds \<open>1 - 2\<^sup>-\<^sup>5\<^sup>3\<close> tokens at 100 ms, where one token
  has flowed in: \<^verbatim>\<open>Allow\<close> returns false.
\<close>

lemma rounded_wait_example:
  "tryAcquireOrGetWaitTime partly_filled 0 = (partly_filled, 64062499)"
  by (simp add: partly_filled_def tryAcquireOrGetWaitTime_def refill_def float64_eval)

lemma dripped_eq:
  "dripped = \<lparr>tokens = Finite (2026619832316723 / 2251799813685248), maxTokens = Finite 10,
              refillRate = Finite 10, lastRefill = 90000000\<rparr>"
  by (simp add: dripped_def drained10_eq Allow_def refill_def float64_eval)

lemma rounded_refill_example:
  "Allow dripped 100000000
     = (\<lparr>tokens = Finite (9007199254740991 / 9007199254740992), maxTokens = Finite 10,
         refillRate = Finite 10, lastRefill = 100000000\<rparr>, False)"
  by (simp add: dripped_eq Allow_def refill_def float64_eval)

text \<open>
  Claim C8 fails on the code for a negative rate, which \<^verbatim>\<open>New\<close> accepts although
  the repository's test \<^verbatim>\<open>TestNew_PanicsOnInvalidRate\<close> requires a panic: the bucket
  of \<^verbatim>\<open>New(-1)\<close> starts with \<open>tokens = maxTokens = refillRate = -1\<close>, and the refill
  of an \<^verbatim>\<open>Allow\<close> one second later leaves \<open>tokens = -2\<close>.
\<close>

theorem bucket_negative_rate:
  "tokens (ratelimit_New (Finite (- 1)) 0) = Finite (- 1) \<and>
   maxTokens (ratelimit_New (Finite (- 1)) 0) = Finite (- 1) \<and>
   refillRate (ratelimit_New (Finite (- 1)) 0) = Finite (- 1) \<and>
   \<not> limiter_inv (ratelimit_New (Finite (- 1)) 0) \<and>
   refill (ratelimit_New (Finite (- 1)) 0) 1000000000
     = \<lparr>tokens = Finite (- 2), maxTokens = Finite (- 1), refillRate = Finite (- 1),
        lastRefill = 1000000000\<rparr> \<and>
   Allow (ratelimit_New (Finite (- 1)) 0) 1000000000
     = (\<lparr>tokens = Finite (- 2), maxTokens = Finite (- 1), refillRate = Finite (- 1),
         lastRefill = 1000000000\<rparr>, False) \<and>
   \<not> limiter_inv (fst (Allow (ratelimit_New (Finite (- 1)) 0) 1000000000))"
  by (simp add: Allow_def refill_def ratelimit_New_def limiter_inv_def float64_eval)

text \<open>
  With the rate 0, which \<^verbatim>\<open>New\<close> accepts as well, no token ever flows in: the
  quotient is an infinity, the wait returned is not zero, and \<^verbatim>\<open>Wait\<close> goes round
  its loop until the context is done.
\<close>

lemma zero_rate_example:
  "tryAcquireOrGetWaitTime (ratelimit_New (Finite 0) 0) 1000000000
     = (\<lparr>tokens = Finite 0, maxTokens = Finite 0, refillRate = Finite 0, lastRefill = 1000000000\<rparr>,
        minInt64) \<and>
   Wait (ratelimit_New (Finite 0) 0) [(0, None), (1000000000, None), (2000000000, None)] = None \<and>
   Wait (ratelimit_New (Finite 0) 0) [(0, None), (1000000000, Some Canceled)]
     = Some (\<lparr>tokens = Finite 0, maxTokens = Finite 0, refillRate = Finite 0,
              lastRefill = 1000000000\<rparr>, Some (ContextError Canceled))"
  by (simp add: ratelimit_New_def tryAcquireOrGetWaitTime_def refill_def float64_eval)

text \<open>
  A wait shorter than one nanosecond truncates to the duration 0, which \<^verbatim>\<open>Wait\<close>
  reads as "token acquired": for the bucket of rate 1.9999999999 after one
  \<^verbatim>\<open>Allow\<close>, \<^verbatim>\<open>Wait\<close> returns nil although the bucket holds less than one token,
  and takes nothing from it.
\<close>

theorem wait_truncated_to_zero_example:
  "\<not> fle (Finite 1) (tokens (refill odd_bucket 0)) \<and>
   tryAcquireOrGetWaitTime odd_bucket 0 = (odd_bucket, 0) \<and>
   Wait odd_bucket [(0, None)] = Some (odd_bucket, None)"
proof -
  have r: "odd_rate = Finite (1125899906786329 / 562949953421312)"
    by (simp add: odd_rate_def float64_eval)
  have b: "odd_bucket
             = \<lparr>tokens = Finite (562949953365017 / 562949953421312), maxTokens = odd_rate,
                refillRate = odd_rate, lastRefill = 0\<rparr>"
    unfolding odd_bucket_def
    by (simp add: r Allow_def refill_def ratelimit_New_def float64_eval)
  have t: "tryAcquireOrGetWaitTime odd_bucket 0 = (odd_bucket, 0)"
    unfolding b by (simp add: r tryAcquireOrGetWaitTime_def refill_def float64_eval)
  have f: "refill odd_bucket 0 = odd_bucket"
    unfolding b by (simp add: r refill_def float64_eval)
  have "\<not> fle (Finite 1) (tokens (refill odd_bucket 0))"
    unfolding f by (simp add: b)
  with t show ?thesis
    by simp
qed

section \<open>Proofs: the session\<close>

lemma trim_examples:
  "TrimSpace ''tok1'' = ''tok1''"
  "TrimSpace ''tok2'' = ''tok2''"
  "TrimSpace '' tok1 '' = ''tok1''"
  by (simp_all add: TrimSpace_def TrimLeftSpace_def TrimRightSpace_def leading_rune_def
      space_runes_def strip_runes.simps)

lemma leading_rune_Some:
  assumes "leading_rune runes s = Some r"
  shows "r \<in> set runes \<and> r \<noteq> [] \<and> take (length r) s = r"
  using assms unfolding leading_rune_def
  by (metis (mono_tags, lifting) find_Some_iff nth_mem)

lemma leading_rune_None:
  "leading_rune runes s = None \<longleftrightarrow> (\<forall>r \<in> set runes. r = [] \<or> take (length r) s \<noteq> r)"
  unfolding leading_rune_def by (auto simp: find_None_iff)

lemma strip_runes_decomp:
  "\<exists>pre. pre \<in> rune_strings runes \<and> s = pre @ strip_runes runes s"
proof (induction runes s rule: strip_runes.induct)
  case (1 runes s)
  show ?case
  proof (cases "leading_rune runes s")
    case None
    then have "strip_runes runes s = s"
      by (simp add: strip_runes.simps [of runes s])
    then show ?thesis
      using rune_strings.empty [of runes] by (intro exI [of _ "[]"]) simp
  next
    case (Some r)
    from "1.IH" [OF Some] obtain pre where pre: "pre \<in> rune_strings runes"
      and d: "drop (length r) s = pre @ strip_runes runes (drop (length r) s)"
      by blast
    from leading_rune_Some [OF Some] have r: "r \<in> set runes" "take (length r) s = r"
      by simp_all
    have st: "strip_runes runes s = strip_runes runes (drop (length r) s)"
      using Some by (simp add: strip_runes.simps [of runes s])
    have "s = take (length r) s @ drop (length r) s"
      by simp
    then have "s = (r @ pre) @ strip_runes runes s"
      using r(2) d st by (metis append.assoc)
    moreover have "r @ pre \<in> rune_strings runes"
      using r(1) pre by (rule rune_strings.rune)
    ultimately show ?thesis
      by blast
  qed
qed

lemma strip_runes_done:
  "leading_rune runes (strip_runes runes s) = None"
proof (induction runes s rule: strip_runes.induct)
  case (1 runes s)
  show ?case
  proof (cases "leading_rune runes s")
    case None
    then show ?thesis
      by (simp add: strip_runes.simps [of runes s])
  next
    case (Some r)
    with "1.IH" [OF Some] show ?thesis
      by (simp add: strip_runes.simps [of runes s])
  qed
qed

lemma leading_rune_prefix:
  assumes "leading_rune runes (t @ post) = None"
  shows "leading_rune runes t = None"
proof -
  from assms have all: "\<forall>r \<in> set runes. r = [] \<or> take (length r) (t @ post) \<noteq> r"
    by (simp only: leading_rune_None)
  have "r = [] \<or> take (length r) t \<noteq> r" if "r \<in> set runes" for r
  proof (rule ccontr)
    assume "\<not> (r = [] \<or> take (length r) t \<noteq> r)"
    then have m: "r \<noteq> []" "take (length r) t = r"
      by simp_all
    have "length (take (length r) t) = length r"
      by (simp only: m(2))
    then have "length r \<le> length t"
      by simp
    then have "take (length r) (t @ post) = take (length r) t"
      by simp
    with m(2) have "take (length r) (t @ post) = r"
      by (simp only:)
    with all that m(1) show False
      by blast
  qed
  then show ?thesis
    by (simp only: leading_rune_None) blast
qed

lemma TrimSpace_trimmed:
  "\<exists>pre post. s = pre @ TrimSpace s @ post \<and> pre \<in> rune_strings space_runes \<and>
      rev post \<in> rune_strings (map rev space_runes)"
  "leading_rune space_runes (TrimSpace s) = None"
  "leading_rune (map rev space_runes) (rev (TrimSpace s)) = None"
proof -
  let ?t = "TrimLeftSpace s"
  obtain pre where pre: "pre \<in> rune_strings space_runes" "s = pre @ ?t"
    using strip_runes_decomp [of space_runes s] unfolding TrimLeftSpace_def by blast
  obtain q where q: "q \<in> rune_strings (map rev space_runes)"
    "rev ?t = q @ strip_runes (map rev space_runes) (rev ?t)"
    using strip_runes_decomp [of "map rev space_runes" "rev ?t"] by blast
  have t: "?t = TrimSpace s @ rev q"
  proof -
    have "rev (rev ?t) = rev (q @ strip_runes (map rev space_runes) (rev ?t))"
      using q(2) by simp
    then show ?thesis
      by (simp add: TrimSpace_def TrimRightSpace_def)
  qed
  with pre q(1) show "\<exists>pre post. s = pre @ TrimSpace s @ post \<and> pre \<in> rune_strings space_runes \<and>
      rev post \<in> rune_strings (map rev space_runes)"
    by (intro exI [of _ pre] exI [of _ "rev q"]) simp
  have "leading_rune space_runes ?t = None"
    unfolding TrimLeftSpace_def by (rule strip_runes_done)
  with t show "leading_rune space_runes (TrimSpace s) = None"
    using leading_rune_prefix by metis
  show "leading_rune (map rev space_runes) (rev (TrimSpace s)) = None"
    by (simp add: TrimSpace_def TrimRightSpace_def strip_runes_done)
qed

lemma tokenNeedsRefresh_iff:
  "tokenNeedsRefresh c now = (token c = [] \<or> tokenExpiry c < now + refreshThreshold c)"
  by (simp add: tokenNeedsRefresh_def tokenNeedsRefreshLocked_def)

lemma tokenNeedsRefresh_mono:
  "tokenNeedsRefresh c t1 \<Longrightarrow> t1 \<le> t2 \<Longrightarrow> tokenNeedsRefresh c t2"
  by (auto simp: tokenNeedsRefresh_iff)

text \<open>
  Claim C4. The token needs a refresh exactly when it is empty or the clock plus
  \<open>refreshThreshold\<close> is after \<open>tokenExpiry\<close>; when it does not, \<^verbatim>\<open>ensureValidToken\<close>
  returns nil at once and leaves the client as it was (no login request is sent).
\<close>

theorem refresh_predicate_and_fast_path:
  "tokenNeedsRefreshLocked c now = (token c = [] \<or> tokenExpiry c < now + refreshThreshold c) \<and>
   tokenNeedsRefresh c now = tokenNeedsRefreshLocked c now \<and>
   (\<not> tokenNeedsRefresh c (now_fast se) \<longrightarrow> ensureValidToken c se = (c, None))"
  by (simp add: tokenNeedsRefresh_def tokenNeedsRefreshLocked_def ensureValidToken_def)

text \<open>
  Claim C4 on a client logged in at time 0 with the defaults: no refresh is needed
  after one minute, one is needed after 58 minutes, and a new client needs one.
\<close>

theorem refresh_predicate_and_fast_path_witness:
  "\<not> tokenNeedsRefresh logged_in (60 * Second) \<and>
   ensureValidToken logged_in (env_at (60 * Second) (fixed_server 200 ''tok1'')) = (logged_in, None) \<and>
   tokenNeedsRefresh logged_in (58 * 60 * Second) \<and>
   tokenNeedsRefresh client_New 0"
  using refresh_predicate_and_fast_path [of logged_in "60 * Second" "env_at (60 * Second) (fixed_server 200 ''tok1'')"]
    refresh_predicate_and_fast_path [of logged_in "58 * 60 * Second"]
    refresh_predicate_and_fast_path [of client_New 0]
  by (simp add: logged_in_def env_at_def storeCredentials_def setTokenWithExpiry_def
      client_New_def defaultTokenLifetime_def defaultRefreshThreshold_def Second_def)

text \<open>
  Claim C5. When the token needs a refresh (and the clock does not go back between
  the two checks), \<^verbatim>\<open>ensureValidToken\<close> returns \<^verbatim>\<open>ErrNoCredentials\<close> and leaves the
  client as it was, sending no login request, if auto-refresh is disabled or no
  credentials are stored; in particular after \<^verbatim>\<open>ClearCredentials\<close>.
\<close>

theorem no_credentials_failure:
  assumes "tokenNeedsRefresh c (now_fast se)" and "now_fast se \<le> now_locked se"
  shows "(\<not> autoRefresh c \<or> credentials c = None \<longrightarrow>
            ensureValidToken c se = (c, Some ErrNoCredentials)) \<and>
         ensureValidToken (ClearCredentials c) se = (ClearCredentials c, Some ErrNoCredentials)"
proof -
  have locked: "tokenNeedsRefresh c (now_locked se)"
    using assms by (rule tokenNeedsRefresh_mono)
  have cleared: "tokenNeedsRefresh (ClearCredentials c) t = tokenNeedsRefresh c t" for t
    by (simp add: tokenNeedsRefresh_iff ClearCredentials_def)
  show ?thesis
    using assms(1) locked
    by (auto simp: ensureValidToken_def refreshToken_def cleared)
       (simp_all add: ClearCredentials_def)
qed

text \<open>
  Claim C5 after 58 minutes on the logged-in client with auto-refresh disabled, on
  the same client after \<^verbatim>\<open>ClearCredentials\<close>, and on a new client.
\<close>

theorem no_credentials_failure_witness:
  "tokenNeedsRefresh logged_in (58 * 60 * Second) \<and>
   ensureValidToken (WithAutoRefresh False logged_in) (env_at (58 * 60 * Second) (fixed_server 200 ''tok1''))
     = (WithAutoRefresh False logged_in, Some ErrNoCredentials) \<and>
   ensureValidToken (ClearCredentials logged_in) (env_at (58 * 60 * Second) (fixed_server 200 ''tok1''))
     = (ClearCredentials logged_in, Some ErrNoCredentials) \<and>
   ensureValidToken client_New (env_at 0 (fixed_server 200 ''tok1''))
     = (client_New, Some ErrNoCredentials)"
  using no_credentials_failure [of "WithAutoRefresh False logged_in" "env_at (58 * 60 * Second) (fixed_server 200 ''tok1'')"]
    no_credentials_failure [of logged_in "env_at (58 * 60 * Second) (fixed_server 200 ''tok1'')"]
    no_credentials_failure [of client_New "env_at 0 (fixed_server 200 ''tok1'')"]
  by (simp add: logged_in_def env_at_def storeCredentials_def setTokenWithExpiry_def
      client_New_def defaultTokenLifetime_def defaultRefreshThreshold_def Second_def
      WithAutoRefresh_def tokenNeedsRefresh_iff ClearCredentials_def)

lemma loginInternal_error_keeps:
  assumes "loginInternal c u p a now srv = (c', Some e)"
  shows "token c' = token c \<and> tokenExpiry c' = tokenExpiry c \<and> credentials c' = credentials c"
  using assms
  by (auto simp: loginInternal_def Let_def setTokenWithExpiry_def
           split: exchange.splits if_splits sum.splits)

lemma loginInternal_success:
  assumes "loginInternal c u p a now srv = (c', None)"
  shows "\<exists>body tok. srv u p a = Response StatusOK body \<and>
           ReadAll_LimitReader body (maxTokenSize + 1) = Inr tok \<and> length tok \<le> maxTokenSize \<and>
           c' = c\<lparr>httpCalls := httpCalls c + 1, token := TrimSpace tok,
                  tokenExpiry := now + tokenLifetime c\<rparr>"
  using assms
  by (auto simp: loginInternal_def Let_def setTokenWithExpiry_def
           split: exchange.splits if_splits sum.splits)

lemma refreshToken_error_keeps:
  assumes "refreshToken c now srv = (c', Some e)"
  shows "token c' = token c \<and> tokenExpiry c' = tokenExpiry c"
  using assms loginInternal_error_keeps
  by (fastforce simp: refreshToken_def split: option.splits)

lemma ensureValidToken_error_keeps:
  assumes "ensureValidToken c se = (c', Some e)"
  shows "token c' = token c \<and> tokenExpiry c' = tokenExpiry c"
  using assms refreshToken_error_keeps
  by (fastforce simp: ensureValidToken_def split: if_splits)

lemma loginInternal_failures:
  "srv u p a = RequestNotCreated \<Longrightarrow> \<exists>e. loginInternal c u p a now srv = (c, Some e)"
  "srv u p a = TransportError \<Longrightarrow>
     \<exists>e. loginInternal c u p a now srv = (c\<lparr>httpCalls := httpCalls c + 1\<rparr>, Some e)"
  "srv u p a = Response status body \<Longrightarrow> status \<noteq> StatusOK \<Longrightarrow>
     loginInternal c u p a now srv = (c\<lparr>httpCalls := httpCalls c + 1\<rparr>, Some (APIError status))"
  "srv u p a = Response StatusOK (HttpBody bytes True) \<Longrightarrow> length bytes \<le> maxTokenSize \<Longrightarrow>
     \<exists>e. loginInternal c u p a now srv = (c\<lparr>httpCalls := httpCalls c + 1\<rparr>, Some e)"
  "srv u p a = Response StatusOK (HttpBody bytes fails) \<Longrightarrow> maxTokenSize < length bytes \<Longrightarrow>
     loginInternal c u p a now srv = (c\<lparr>httpCalls := httpCalls c + 1\<rparr>, Some ErrTokenTooLarge)"
  by (simp_all add: loginInternal_def Let_def ReadAll_LimitReader_def parseAPIError_def)

text \<open>
  Claim C6. Whenever \<^verbatim>\<open>loginInternal\<close>, \<^verbatim>\<open>refreshToken\<close> or \<^verbatim>\<open>ensureValidToken\<close>
  returns an error, the token and its expiry are the ones stored before. The pair
  is installed only when the login returns nil, and then the response had status
  200 and a readable body within the size limit, the token is that body trimmed and
  the expiry is the clock plus \<open>tokenLifetime\<close>. A transport error, a status other
  than 200, an unreadable body and an oversized body all make the login return an
  error.
\<close>

theorem failed_refresh_keeps_token:
  "(loginInternal c u p a now srv = (c', Some e) \<longrightarrow>
      token c' = token c \<and> tokenExpiry c' = tokenExpiry c) \<and>
   (refreshToken c now srv = (c', Some e) \<longrightarrow>
      token c' = token c \<and> tokenExpiry c' = tokenExpiry c) \<and>
   (ensureValidToken c se = (c', Some e) \<longrightarrow>
      token c' = token c \<and> tokenExpiry c' = tokenExpiry c) \<and>
   (loginInternal c u p a now srv = (c', None) \<longrightarrow>
      (\<exists>body tok. srv u p a = Response StatusOK body \<and>
         ReadAll_LimitReader body (maxTokenSize + 1) = Inr tok \<and> length tok \<le> maxTokenSize \<and>
         token c' = TrimSpace tok \<and> tokenExpiry c' = now + tokenLifetime c)) \<and>
   (srv u p a = TransportError \<or>
    (\<exists>status body. srv u p a = Response status body \<and> status \<noteq> StatusOK) \<or>
    (\<exists>bytes. srv u p a = Response StatusOK (HttpBody bytes True) \<and> length bytes \<le> maxTokenSize) \<or>
    (\<exists>bytes fails. srv u p a = Response StatusOK (HttpBody bytes fails) \<and> maxTokenSize < length bytes)
    \<longrightarrow> (\<exists>err. snd (loginInternal c u p a now srv) = Some err))"
proof -
  have k1: "loginInternal c u p a now srv = (c', Some e) \<longrightarrow>
      token c' = token c \<and> tokenExpiry c' = tokenExpiry c"
    using loginInternal_error_keeps by blast
  have k2: "refreshToken c now srv = (c', Some e) \<longrightarrow>
      token c' = token c \<and> tokenExpiry c' = tokenExpiry c"
    using refreshToken_error_keeps by blast
  have k3: "ensureValidToken c se = (c', Some e) \<longrightarrow>
      token c' = token c \<and> tokenExpiry c' = tokenExpiry c"
    using ensureValidToken_error_keeps by blast
  have k4: "loginInternal c u p a now srv = (c', None) \<longrightarrow>
      (\<exists>body tok. srv u p a = Response StatusOK body \<and>
         ReadAll_LimitReader body (maxTokenSize + 1) = Inr tok \<and> length tok \<le> maxTokenSize \<and>
         token c' = TrimSpace tok \<and> tokenExpiry c' = now + tokenLifetime c)"
  proof
    assume "loginInternal c u p a now srv = (c', None)"
    from loginInternal_success [OF this]
    show "\<exists>body tok. srv u p a = Response StatusOK body \<and>
         ReadAll_LimitReader body (maxTokenSize + 1) = Inr tok \<and> length tok \<le> maxTokenSize \<and>
         token c' = TrimSpace tok \<and> tokenExpiry c' = now + tokenLifetime c"
      by auto
  qed
  have k5: "srv u p a = TransportError \<or>
    (\<exists>status body. srv u p a = Response status body \<and> status \<noteq> StatusOK) \<or>
    (\<exists>bytes. srv u p a = Response StatusOK (HttpBody bytes True) \<and> length bytes \<le> maxTokenSize) \<or>
    (\<exists>bytes fails. srv u p a = Response StatusOK (HttpBody bytes fails) \<and> maxTokenSize < length bytes)
    \<longrightarrow> (\<exists>err. snd (loginInternal c u p a now srv) = Some err)"
    using loginInternal_failures [of srv u p a]
    by (metis snd_conv)
  show ?thesis
    by (rule conjI [OF k1 conjI [OF k2 conjI [OF k3 conjI [OF k4 k5]]]])
qed

text \<open>
  Claim C6 after 58 minutes on the logged-in client: a 401 answer and an oversized
  body leave \<open>tok0\<close> and its expiry in place, a good answer installs the new pair.
\<close>

theorem failed_refresh_keeps_token_witness:
  "ensureValidToken logged_in (env_at (58 * 60 * Second) (fixed_server 401 ''denied''))
     = (logged_in\<lparr>httpCalls := 1\<rparr>, Some (APIError 401)) \<and>
   token (logged_in\<lparr>httpCalls := 1\<rparr>) = ''tok0'' \<and>
   tokenExpiry (logged_in\<lparr>httpCalls := 1\<rparr>) = defaultTokenLifetime \<and>
   ensureValidToken logged_in (env_at (58 * 60 * Second) (fixed_server 200 big_body))
     = (logged_in\<lparr>httpCalls := 1\<rparr>, Some ErrTokenTooLarge) \<and>
   ensureValidToken logged_in (env_at (58 * 60 * Second) (fixed_server 200 '' tok1 ''))
     = (logged_in\<lparr>httpCalls := 1, token := ''tok1'',
          tokenExpiry := 58 * 60 * Second + defaultTokenLifetime\<rparr>, None)"
  using failed_refresh_keeps_token [of logged_in "''user''" "''pass''" "[]" "58 * 60 * Second"
      "fixed_server 401 ''denied''" "logged_in\<lparr>httpCalls := 1\<rparr>" "APIError 401"
      "env_at (58 * 60 * Second) (fixed_server 401 ''denied'')"]
  by (simp add: logged_in_def env_at_def storeCredentials_def setTokenWithExpiry_def
      client_New_def defaultTokenLifetime_def defaultRefreshThreshold_def Second_def
      ensureValidToken_def tokenNeedsRefresh_iff refreshToken_def loginInternal_def
      fixed_server_def StatusOK_def parseAPIError_def ReadAll_LimitReader_def maxTokenSize_def
      big_body_def trim_examples Let_def)

lemma Acquire_success:
  assumes "Acquire q c0 c1 k = Some (Inr q1)"
  shows "sem q = 0 \<and> q1 = q\<lparr>sem := 1\<rparr> \<and> \<not> closed_ch q \<and> c0 = None \<and> k = SendSem"
  using assms
  by (cases k)
     (auto simp: Acquire_def select_acquire_def sem_cap_def split: option.splits if_splits)

lemma Acquire_free:
  assumes "sem q = 0" and "\<not> closed_ch q"
  shows "Acquire q None c1 SendSem = Some (Inr (q\<lparr>sem := 1\<rparr>))"
  using assms by (simp add: Acquire_def select_acquire_def sem_cap_def)

lemma Release_after_Acquire:
  assumes "Acquire q c0 c1 k = Some (Inr q1)"
  shows "Release q1 = Inr q"
  using Acquire_success [OF assms] by (simp add: Release_def)

lemma loginAcquireQueue_success:
  assumes "loginAcquireQueue c ge we = Return c1 None"
  shows "Release (queue c1) = Inr (queue c) \<and> token c1 = token c \<and>
         tokenExpiry c1 = tokenExpiry c \<and> credentials c1 = credentials c \<and>
         tokenLifetime c1 = tokenLifetime c \<and> httpCalls c1 = httpCalls c"
  using assms
  by (auto simp: loginAcquireQueue_def Let_def Release_after_Acquire
           split: option.splits sum.splits prod.splits)

text \<open>
  Claim C10, as amended. \<open>maxTokenSize\<close> is 65536. For a \<^verbatim>\<open>Login\<close> that got through
  the gate and whose request is answered with status 200: a body of more than 65536 bytes makes
  \<^verbatim>\<open>Login\<close> return \<^verbatim>\<open>ErrTokenTooLarge\<close> with the token and expiry stored before; a
  readable body of at most 65536 bytes is accepted, and the token stored is the body
  without its leading and trailing white space (with the expiry and the credentials
  of this login).
\<close>

theorem login_token_size_limit:
  assumes "srv u p [] = Response StatusOK (HttpBody bytes fails)"
    and "loginAcquireQueue c ge we = Return c1 None"
  shows "maxTokenSize = 65536 \<and>
         (maxTokenSize < length bytes \<longrightarrow>
            loginInternal c1 u p [] now srv
              = (c1\<lparr>httpCalls := httpCalls c1 + 1\<rparr>, Some ErrTokenTooLarge) \<and>
            Login c u p ge we now srv
              = Return (c1\<lparr>httpCalls := httpCalls c + 1, queue := queue c\<rparr>) (Some ErrTokenTooLarge) \<and>
            token c1 = token c \<and> tokenExpiry c1 = tokenExpiry c) \<and>
         (length bytes \<le> maxTokenSize \<and> \<not> fails \<longrightarrow>
            Login c u p ge we now srv
              = Return (c1\<lparr>httpCalls := httpCalls c + 1, token := TrimSpace bytes,
                           tokenExpiry := now + tokenLifetime c,
                           credentials := Some \<lparr>username = u, password = p, authString = []\<rparr>,
                           queue := queue c\<rparr>) None \<and>
            (\<exists>pre post. bytes = pre @ TrimSpace bytes @ post \<and>
               pre \<in> rune_strings space_runes \<and>
               rev post \<in> rune_strings (map rev space_runes)) \<and>
            leading_rune space_runes (TrimSpace bytes) = None \<and>
            leading_rune (map rev space_runes) (rev (TrimSpace bytes)) = None)"
proof -
  note q = loginAcquireQueue_success [OF assms(2)]
  have big: "loginInternal c1 u p [] now srv
              = (c1\<lparr>httpCalls := httpCalls c1 + 1\<rparr>, Some ErrTokenTooLarge)"
    if "maxTokenSize < length bytes"
    using that assms(1) by (simp add: loginInternal_def Let_def ReadAll_LimitReader_def)
  have big_login: "Login c u p ge we now srv
              = Return (c1\<lparr>httpCalls := httpCalls c + 1, queue := queue c\<rparr>) (Some ErrTokenTooLarge)"
    if "maxTokenSize < length bytes"
    using big [OF that] assms(2) q
    by (simp add: Login_def LoginWithAuth_def deferred_Release_def)
  have small_login: "Login c u p ge we now srv
              = Return (c1\<lparr>httpCalls := httpCalls c + 1, token := TrimSpace bytes,
                           tokenExpiry := now + tokenLifetime c,
                           credentials := Some \<lparr>username = u, password = p, authString = []\<rparr>,
                           queue := queue c\<rparr>) None"
    if "length bytes \<le> maxTokenSize \<and> \<not> fails"
    using that assms q
    by (simp add: Login_def LoginWithAuth_def deferred_Release_def loginInternal_def Let_def
        ReadAll_LimitReader_def setTokenWithExpiry_def storeCredentials_def)
  have m: "maxTokenSize = 65536"
    by (simp add: maxTokenSize_def)
  from m big big_login small_login q TrimSpace_trimmed [of bytes]
  show ?thesis
    by blast
qed

lemma throttled_limiter:
  "rateLimiter throttled
     = Some \<lparr>tokens = Finite 0, maxTokens = Finite 2, refillRate = Finite 2,
             lastRefill = 60000000000\<rparr>"
  by (simp add: throttled_def Allow_def refill_def ratelimit_New_def float64_eval)

lemma big_body_length: "length big_body = 65537"
  by (simp add: big_body_def)

lemma free_gate_login:
  "loginAcquireQueue client_New free_gate []
     = Return (client_New\<lparr>queue := \<lparr>sem = 1, closed_ch = False, closeOnce = False\<rparr>\<rparr>) None"
  by (simp add: loginAcquireQueue_def free_gate_def client_New_def queue_New_def Acquire_def
      select_acquire_def sem_cap_def)

text \<open>
  Claim C10 on a new client: a body of 65537 bytes is refused, the body
  \<open>" tok1 "\<close> is stored as \<open>"tok1"\<close>.
\<close>

theorem login_token_size_limit_witness:
  "Login client_New ''user'' ''pass'' free_gate [] 0 (fixed_server 200 big_body)
     = Return (client_New\<lparr>httpCalls := 1\<rparr>) (Some ErrTokenTooLarge) \<and>
   length big_body = 65537 \<and>
   Login client_New ''user'' ''pass'' free_gate [] 0 (fixed_server 200 '' tok1 '')
     = Return (client_New\<lparr>httpCalls := 1, token := ''tok1'', tokenExpiry := defaultTokenLifetime,
                credentials := Some \<lparr>username = ''user'', password = ''pass'', authString = []\<rparr>\<rparr>)
              None"
proof -
  let ?c1 = "client_New\<lparr>queue := \<lparr>sem = 1, closed_ch = False, closeOnce = False\<rparr>\<rparr>"
  have s1: "fixed_server 200 big_body ''user'' ''pass'' [] = Response StatusOK (HttpBody big_body False)"
    by (simp add: fixed_server_def StatusOK_def)
  have s2: "fixed_server 200 '' tok1 '' ''user'' ''pass'' [] = Response StatusOK (HttpBody '' tok1 '' False)"
    by (simp add: fixed_server_def StatusOK_def)
  have big: "maxTokenSize < length big_body"
    by (simp add: big_body_length maxTokenSize_def)
  have small: "length '' tok1 '' \<le> maxTokenSize \<and> \<not> False"
    by (simp add: maxTokenSize_def)
  have "Login client_New ''user'' ''pass'' free_gate [] 0 (fixed_server 200 big_body)
     = Return (?c1\<lparr>httpCalls := httpCalls client_New + 1, queue := queue client_New\<rparr>)
         (Some ErrTokenTooLarge)"
    using login_token_size_limit [where srv = "fixed_server 200 big_body" and u = "''user''"
        and p = "''pass''" and now = 0, OF s1 free_gate_login] big by blast
  moreover have "Login client_New ''user'' ''pass'' free_gate [] 0 (fixed_server 200 '' tok1 '')
     = Return (?c1\<lparr>httpCalls := httpCalls client_New + 1, token := TrimSpace '' tok1 '',
                  tokenExpiry := 0 + tokenLifetime client_New,
                  credentials := Some \<lparr>username = ''user'', password = ''pass'', authString = []\<rparr>,
                  queue := queue client_New\<rparr>) None"
    using login_token_size_limit [where srv = "fixed_server 200 '' tok1 ''" and u = "''user''"
        and p = "''pass''" and now = 0, OF s2 free_gate_login] small by blast
  moreover have "TrimSpace '' tok1 '' = ''tok1''"
    by (rule trim_examples)
  ultimately show ?thesis
    by (simp add: big_body_length client_New_def queue_New_def)
qed

text \<open>
  Claim C10 as stated fails for a login answered with another status than 200: the
  status is looked at first, so a body of 65537 bytes under status 500 gives the API
  error of that status, not \<^verbatim>\<open>ErrTokenTooLarge\<close>, and a body within the limit is not
  accepted under status 500; nor is one under status 200 whose reading fails.
\<close>

theorem login_token_size_counterexample:
  "maxTokenSize < length big_body \<and>
   Login client_New ''user'' ''pass'' free_gate [] 0 (fixed_server 500 big_body)
     = Return (client_New\<lparr>httpCalls := 1\<rparr>) (Some (APIError 500)) \<and>
   APIError 500 \<noteq> ErrTokenTooLarge \<and>
   length ''tok1'' \<le> maxTokenSize \<and>
   Login client_New ''user'' ''pass'' free_gate [] 0 (fixed_server 500 ''tok1'')
     = Return (client_New\<lparr>httpCalls := 1\<rparr>) (Some (APIError 500)) \<and>
   Login client_New ''user'' ''pass'' free_gate [] 0 (unreadable_server ''tok1'')
     = Return (client_New\<lparr>httpCalls := 1\<rparr>)
         (Some (Wrap ''reading login response'' (OtherError ''read'')))"
proof -
  have b: "maxTokenSize < length big_body"
    by (simp add: big_body_length maxTokenSize_def)
  have s: "length ''tok1'' \<le> maxTokenSize"
    by (simp add: maxTokenSize_def)
  have l1: "Login client_New ''user'' ''pass'' free_gate [] 0 (fixed_server 500 bytes)
     = Return (client_New\<lparr>httpCalls := 1\<rparr>) (Some (APIError 500))" for bytes
    unfolding Login_def LoginWithAuth_def free_gate_login
    by (simp add: loginInternal_def fixed_server_def StatusOK_def parseAPIError_def
        deferred_Release_def Release_def client_New_def queue_New_def Let_def)
  have l2: "Login client_New ''user'' ''pass'' free_gate [] 0 (unreadable_server ''tok1'')
     = Return (client_New\<lparr>httpCalls := 1\<rparr>)
         (Some (Wrap ''reading login response'' (OtherError ''read'')))"
    unfolding Login_def LoginWithAuth_def free_gate_login
    by (simp add: loginInternal_def unreadable_server_def StatusOK_def ReadAll_LimitReader_def
        maxTokenSize_def deferred_Release_def Release_def client_New_def queue_New_def Let_def)
  from b s l1 [of big_body] l1 [of "''tok1''"] l2 show ?thesis
    by simp
qed

lemma loginInternal_frame:
  assumes "loginInternal c u p a now srv = (c', r)"
  shows "queue c' = queue c \<and> rateLimiter c' = rateLimiter c"
  using assms
  by (auto simp: loginInternal_def Let_def setTokenWithExpiry_def
           split: exchange.splits if_splits sum.splits)

lemma ensureValidToken_frame:
  assumes "ensureValidToken c se = (c', r)"
  shows "queue c' = queue c \<and> rateLimiter c' = rateLimiter c"
  using assms loginInternal_frame
  by (fastforce simp: ensureValidToken_def refreshToken_def split: if_splits option.splits)

text \<open>
  Claim C2. \<^verbatim>\<open>acquireAndRateLimit\<close> validates the token, then acquires the gate,
  then waits for the rate limiter. If validation fails it returns that error with
  the gate and the limiter untouched. If \<^verbatim>\<open>Acquire\<close> fails it returns that error
  with the gate and the limiter untouched. If \<^verbatim>\<open>Wait\<close> fails, the slot it holds is
  released before the error is returned. If all three succeed it returns nil, holding
  the slot that \<^verbatim>\<open>Acquire\<close> took and with the limiter as \<^verbatim>\<open>Wait\<close> left it (no limiter:
  no wait). It returns nil only so, and does not return exactly when \<^verbatim>\<open>Acquire\<close> or
  \<^verbatim>\<open>Wait\<close> does not. So whenever it returns an error the gate is as it was before
  the call, whenever it returns nil the slot was free and is now held, and it never
  panics.
\<close>

theorem guarded_entry_order:
  "(\<forall>c1 e. ensureValidToken c se = (c1, Some e) \<longrightarrow>
      acquireAndRateLimit c se ge we = Return c1 (Some (Wrap ''ensuring valid token'' e)) \<and>
      queue c1 = queue c \<and> rateLimiter c1 = rateLimiter c) \<and>
   (\<forall>c1 e. ensureValidToken c se = (c1, None) \<and>
            Acquire (queue c) (ctx_entry ge) (ctx_select ge) (chosen ge) = Some (Inl e) \<longrightarrow>
      acquireAndRateLimit c se ge we = Return c1 (Some (Wrap ''acquiring request queue'' e)) \<and>
      queue c1 = queue c \<and> rateLimiter c1 = rateLimiter c) \<and>
   (\<forall>c1 q1 l l1 e. ensureValidToken c se = (c1, None) \<and>
            Acquire (queue c) (ctx_entry ge) (ctx_select ge) (chosen ge) = Some (Inr q1) \<and>
            rateLimiter c = Some l \<and> Wait l we = Some (l1, Some e) \<longrightarrow>
      acquireAndRateLimit c se ge we
        = Return (c1\<lparr>rateLimiter := Some l1\<rparr>) (Some (Wrap ''rate limit'' e)) \<and>
      sem q1 = 1 \<and> Release q1 = Inr (queue c) \<and> queue c1 = queue c) \<and>
   (\<forall>c1 q1. ensureValidToken c se = (c1, None) \<and>
            Acquire (queue c) (ctx_entry ge) (ctx_select ge) (chosen ge) = Some (Inr q1) \<and>
            rateLimiter c = None \<longrightarrow>
      acquireAndRateLimit c se ge we = Return (c1\<lparr>queue := q1\<rparr>) None \<and>
      sem (queue c) = 0 \<and> q1 = (queue c)\<lparr>sem := 1\<rparr> \<and> rateLimiter c1 = None) \<and>
   (\<forall>c1 q1 l l1. ensureValidToken c se = (c1, None) \<and>
            Acquire (queue c) (ctx_entry ge) (ctx_select ge) (chosen ge) = Some (Inr q1) \<and>
            rateLimiter c = Some l \<and> Wait l we = Some (l1, None) \<longrightarrow>
      acquireAndRateLimit c se ge we = Return (c1\<lparr>queue := q1, rateLimiter := Some l1\<rparr>) None \<and>
      sem (queue c) = 0 \<and> q1 = (queue c)\<lparr>sem := 1\<rparr>) \<and>
   (\<forall>c'. acquireAndRateLimit c se ge we = Return c' None \<longrightarrow>
      (\<exists>c1 q1. ensureValidToken c se = (c1, None) \<and>
         Acquire (queue c) (ctx_entry ge) (ctx_select ge) (chosen ge) = Some (Inr q1) \<and>
         queue c' = q1 \<and>
         (rateLimiter c = None \<and> rateLimiter c' = None \<or>
          (\<exists>l l1. rateLimiter c = Some l \<and> Wait l we = Some (l1, None) \<and>
             rateLimiter c' = Some l1)))) \<and>
   (acquireAndRateLimit c se ge we = Stuck) =
      (\<exists>c1. ensureValidToken c se = (c1, None) \<and>
         (Acquire (queue c) (ctx_entry ge) (ctx_select ge) (chosen ge) = None \<or>
          (\<exists>q1 l. Acquire (queue c) (ctx_entry ge) (ctx_select ge) (chosen ge) = Some (Inr q1) \<and>
             rateLimiter c = Some l \<and> Wait l we = None))) \<and>
   (\<forall>c' e. acquireAndRateLimit c se ge we = Return c' (Some e) \<longrightarrow> queue c' = queue c) \<and>
   (\<forall>c'. acquireAndRateLimit c se ge we = Return c' None \<longrightarrow>
      sem (queue c) = 0 \<and> queue c' = (queue c)\<lparr>sem := 1\<rparr>) \<and>
   (\<forall>pn. acquireAndRateLimit c se ge we \<noteq> Crash pn)"
proof -
  obtain c1 r where ev: "ensureValidToken c se = (c1, r)"
    by (cases "ensureValidToken c se")
  note fr = ensureValidToken_frame [OF ev]
  show ?thesis
  proof (cases r)
    case (Some e)
    with ev fr show ?thesis
      by (simp add: acquireAndRateLimit_def)
  next
    case None
    note r = None
    show ?thesis
    proof (cases "Acquire (queue c) (ctx_entry ge) (ctx_select ge) (chosen ge)")
      case None
      with ev r fr show ?thesis
        by (simp add: acquireAndRateLimit_def)
    next
      case (Some res)
      show ?thesis
      proof (cases res)
        case (Inl e)
        with Some ev r fr show ?thesis
          by (simp add: acquireAndRateLimit_def)
      next
        case (Inr q1)
        with Some have acq: "Acquire (queue c) (ctx_entry ge) (ctx_select ge) (chosen ge) = Some (Inr q1)"
          by simp
        note a = Acquire_success [OF acq]
        have rel: "Release q1 = Inr (queue c)"
          using acq by (rule Release_after_Acquire)
        have restore: "c1\<lparr>queue := queue c\<rparr> = c1"
          using fr by simp
        show ?thesis
        proof (cases "rateLimiter c")
          case None
          with acq ev r fr a show ?thesis
            by (simp add: acquireAndRateLimit_def Let_def)
        next
          case (Some l)
          note l = Some
          show ?thesis
          proof (cases "Wait l we")
            case None
            with l acq ev r fr show ?thesis
              by (simp add: acquireAndRateLimit_def Let_def)
          next
            case (Some w)
            obtain l1 wr where w: "w = (l1, wr)"
              by (cases w)
            show ?thesis
            proof (cases wr)
              case None
              with Some w l acq ev r fr a show ?thesis
                by (simp add: acquireAndRateLimit_def Let_def)
            next
              case (Some e)
              with \<open>Wait l we = Some w\<close> w l acq ev r fr a rel restore show ?thesis
                by (simp add: acquireAndRateLimit_def Let_def)
            qed
          qed
        qed
      qed
    qed
  qed
qed

lemma no_credentials_entry:
  "ensureValidToken client_New (env_at 0 (fixed_server 200 ''tok1''))
     = (client_New, Some ErrNoCredentials)"
  by (simp add: ensureValidToken_def tokenNeedsRefresh_iff refreshToken_def env_at_def
      client_New_def)

lemma logged_in_valid:
  "ensureValidToken logged_in (env_at (60 * Second) (fixed_server 200 ''tok1'')) = (logged_in, None)"
  by (simp add: ensureValidToken_def tokenNeedsRefresh_iff env_at_def logged_in_def
      storeCredentials_def setTokenWithExpiry_def client_New_def defaultTokenLifetime_def
      defaultRefreshThreshold_def Second_def)

lemma logged_in_gate:
  "Acquire (queue logged_in) (ctx_entry free_gate) (ctx_select free_gate) (chosen free_gate)
     = Some (Inr \<lparr>sem = 1, closed_ch = False, closeOnce = False\<rparr>)"
  by (simp add: logged_in_def storeCredentials_def setTokenWithExpiry_def
      client_New_def queue_New_def free_gate_def Acquire_def select_acquire_def sem_cap_def)

lemma logged_in_limiter: "rateLimiter logged_in = None"
  by (simp add: logged_in_def storeCredentials_def setTokenWithExpiry_def client_New_def)

lemma throttled_valid:
  "ensureValidToken throttled (env_at (60 * Second) (fixed_server 200 ''tok1'')) = (throttled, None)"
  by (simp add: ensureValidToken_def tokenNeedsRefresh_iff env_at_def throttled_def logged_in_def
      storeCredentials_def setTokenWithExpiry_def client_New_def defaultTokenLifetime_def
      defaultRefreshThreshold_def Second_def)

lemma throttled_gate:
  "Acquire (queue throttled) (ctx_entry free_gate) (ctx_select free_gate) (chosen free_gate)
     = Some (Inr \<lparr>sem = 1, closed_ch = False, closeOnce = False\<rparr>)"
  by (simp add: throttled_def logged_in_def storeCredentials_def setTokenWithExpiry_def
      client_New_def queue_New_def free_gate_def Acquire_def select_acquire_def sem_cap_def)

lemma throttled_wait:
  "Wait \<lparr>tokens = Finite 0, maxTokens = Finite 2, refillRate = Finite 2, lastRefill = 60000000000\<rparr>
        [(60 * Second, Some DeadlineExceeded)]
     = Some (\<lparr>tokens = Finite 0, maxTokens = Finite 2, refillRate = Finite 2,
              lastRefill = 60000000000\<rparr>,
             Some (ContextError DeadlineExceeded))"
  by (simp add: tryAcquireOrGetWaitTime_def refill_def float64_eval)

lemma throttled_wait_token:
  "Wait \<lparr>tokens = Finite 0, maxTokens = Finite 2, refillRate = Finite 2, lastRefill = 60000000000\<rparr>
        [(60 * Second, None), (60 * Second + 500000000, None)]
     = Some (\<lparr>tokens = Finite 0, maxTokens = Finite 2, refillRate = Finite 2,
              lastRefill = 60500000000\<rparr>, None)"
  by (simp add: tryAcquireOrGetWaitTime_def refill_def float64_eval)

text \<open>
  Claim C2 on a new client (validation fails: no credentials), on a logged-in client
  whose bucket is drained and whose context times out during the wait, on a
  logged-in client without a limiter (the slot is taken and nil returned), and on
  the client with the drained bucket when the token that flows in within half a
  second is waited for (the slot is taken, the token consumed and nil returned).
\<close>

theorem guarded_entry_order_witness:
  "acquireAndRateLimit client_New (env_at 0 (fixed_server 200 ''tok1'')) free_gate []
     = Return client_New (Some (Wrap ''ensuring valid token'' ErrNoCredentials)) \<and>
   acquireAndRateLimit throttled (env_at (60 * Second) (fixed_server 200 ''tok1'')) free_gate
       [(60 * Second, Some DeadlineExceeded)]
     = Return throttled (Some (Wrap ''rate limit'' (ContextError DeadlineExceeded))) \<and>
   acquireAndRateLimit logged_in (env_at (60 * Second) (fixed_server 200 ''tok1'')) free_gate []
     = Return (logged_in\<lparr>queue := \<lparr>sem = 1, closed_ch = False, closeOnce = False\<rparr>\<rparr>) None \<and>
   acquireAndRateLimit throttled (env_at (60 * Second) (fixed_server 200 ''tok1'')) free_gate
       [(60 * Second, None), (60 * Second + 500000000, None)]
     = Return (throttled\<lparr>queue := \<lparr>sem = 1, closed_ch = False, closeOnce = False\<rparr>,
                 rateLimiter := Some \<lparr>tokens = Finite 0, maxTokens = Finite 2,
                                      refillRate = Finite 2, lastRefill = 60500000000\<rparr>\<rparr>) None"
proof -
  note g1 = guarded_entry_order [of client_New "env_at 0 (fixed_server 200 ''tok1'')" free_gate "[]"]
  note g2 = guarded_entry_order [of throttled "env_at (60 * Second) (fixed_server 200 ''tok1'')"
      free_gate "[(60 * Second, Some DeadlineExceeded)]"]
  note g3 = guarded_entry_order [of logged_in "env_at (60 * Second) (fixed_server 200 ''tok1'')"
      free_gate "[]"]
  note g4 = guarded_entry_order [of throttled "env_at (60 * Second) (fixed_server 200 ''tok1'')"
      free_gate "[(60 * Second, None), (60 * Second + 500000000, None)]"]
  have r1: "acquireAndRateLimit client_New (env_at 0 (fixed_server 200 ''tok1'')) free_gate []
     = Return client_New (Some (Wrap ''ensuring valid token'' ErrNoCredentials))"
    using g1 [THEN conjunct1] no_credentials_entry by blast
  have "acquireAndRateLimit throttled (env_at (60 * Second) (fixed_server 200 ''tok1''))
       free_gate [(60 * Second, Some DeadlineExceeded)]
     = Return (throttled\<lparr>rateLimiter :=
                 Some \<lparr>tokens = Finite 0, maxTokens = Finite 2, refillRate = Finite 2,
                       lastRefill = 60000000000\<rparr>\<rparr>)
         (Some (Wrap ''rate limit'' (ContextError DeadlineExceeded)))"
    using g2 [THEN conjunct2, THEN conjunct2, THEN conjunct1]
      throttled_valid throttled_gate throttled_limiter throttled_wait by blast
  moreover have "throttled\<lparr>rateLimiter :=
                 Some \<lparr>tokens = Finite 0, maxTokens = Finite 2, refillRate = Finite 2,
                       lastRefill = 60000000000\<rparr>\<rparr>
                 = throttled"
    using throttled_limiter by simp
  ultimately have r2: "acquireAndRateLimit throttled (env_at (60 * Second) (fixed_server 200 ''tok1''))
       free_gate [(60 * Second, Some DeadlineExceeded)]
     = Return throttled (Some (Wrap ''rate limit'' (ContextError DeadlineExceeded)))"
    by simp
  have r3: "acquireAndRateLimit logged_in (env_at (60 * Second) (fixed_server 200 ''tok1''))
       free_gate []
     = Return (logged_in\<lparr>queue := \<lparr>sem = 1, closed_ch = False, closeOnce = False\<rparr>\<rparr>) None"
    using g3 [THEN conjunct2, THEN conjunct2, THEN conjunct2, THEN conjunct1]
      logged_in_valid logged_in_gate logged_in_limiter by blast
  have r4: "acquireAndRateLimit throttled (env_at (60 * Second) (fixed_server 200 ''tok1''))
       free_gate [(60 * Second, None), (60 * Second + 500000000, None)]
     = Return (throttled\<lparr>queue := \<lparr>sem = 1, closed_ch = False, closeOnce = False\<rparr>,
                 rateLimiter := Some \<lparr>tokens = Finite 0, maxTokens = Finite 2,
                                      refillRate = Finite 2, lastRefill = 60500000000\<rparr>\<rparr>) None"
    using g4 [THEN conjunct2, THEN conjunct2, THEN conjunct2, THEN conjunct2, THEN conjunct1]
      throttled_valid throttled_gate throttled_limiter throttled_wait_token by blast
  show ?thesis
    by (rule conjI [OF r1 conjI [OF r2 conjI [OF r3 r4]]])
qed

section \<open>Proofs: concurrent callers of ensureValidToken\<close>

lemma renews_refreshToken:
  assumes "renews c srv" and "credentials c' = credentials c"
  shows "\<exists>tok. tok \<noteq> [] \<and>
           refreshToken c' now srv
             = (c'\<lparr>httpCalls := httpCalls c' + 1, token := tok,
                    tokenExpiry := now + tokenLifetime c'\<rparr>, None)"
  using assms
  by (auto simp: renews_def refreshToken_def loginInternal_def Let_def setTokenWithExpiry_def
           split: option.splits exchange.splits sum.splits)

lemma needs_cong:
  assumes "token c' = token c" and "tokenExpiry c' = tokenExpiry c"
    and "refreshThreshold c' = refreshThreshold c"
  shows "tokenNeedsRefresh c' now = tokenNeedsRefresh c now"
  using assms by (simp add: tokenNeedsRefresh_iff)

lemma fresh_within:
  assumes "token c' \<noteq> []" and "tend + refreshThreshold c' \<le> tokenExpiry c'" and "now \<le> tend"
  shows "\<not> tokenNeedsRefresh c' now"
  using assms by (simp add: tokenNeedsRefresh_iff)

lemma until_last_check_nonneg: "0 \<le> until_last_check as"
  by (induction as rule: until_last_check.induct) simp_all

lemma refresh_inv_init:
  assumes "first_renews c as" and "checks_in_time c as"
  shows "refresh_inv c t0 as (refresh_init c t0)"
  using assms by (simp add: refresh_inv_def refresh_init_def)

lemma refresh_inv_Tick:
  assumes "refresh_inv c t0 (Tick d # bs) s" and "refresh_step (Tick d) s = Some s'"
  shows "refresh_inv c t0 bs s'"
  using assms by (auto simp: refresh_inv_def)

lemma early_check:
  assumes inv: "refresh_inv c t0 bs s" and fresh: "\<not> tokenNeedsRefresh (client s) (clock s)"
    and same: "token (client s) = token c" "tokenExpiry (client s) = tokenExpiry c"
  shows "\<not> tokenNeedsRefresh c t0"
proof
  assume "tokenNeedsRefresh c t0"
  moreover from inv have "t0 \<le> clock s"
    by (simp add: refresh_inv_def)
  ultimately have "tokenNeedsRefresh c (clock s)"
    by (rule tokenNeedsRefresh_mono)
  moreover from inv same have "tokenNeedsRefresh (client s) (clock s) = tokenNeedsRefresh c (clock s)"
    by (intro needs_cong) (simp_all add: refresh_inv_def)
  ultimately show False
    using fresh by simp
qed

lemma late_check:
  assumes inv: "refresh_inv c t0 bs s" and stale: "tokenNeedsRefresh (client s) (clock s)"
    and tok: "token (client s) \<noteq> []"
    and win: "clock s + until_last_check bs' + refreshThreshold c \<le> tokenExpiry (client s)"
  shows False
proof -
  have "clock s \<le> clock s + until_last_check bs'"
    using until_last_check_nonneg [of bs'] by simp
  moreover from inv have "refreshThreshold (client s) = refreshThreshold c"
    by (simp add: refresh_inv_def)
  ultimately have "\<not> tokenNeedsRefresh (client s) (clock s)"
    using fresh_within [of "client s" "clock s + until_last_check bs'" "clock s"] tok win
    by simp
  with stale show False
    by simp
qed

lemma refresh_inv_FastPath:
  assumes inv: "refresh_inv c t0 (FastPath t # bs) s"
    and step: "refresh_step (FastPath t) s = Some s'"
    and auto: "autoRefresh c"
  shows "refresh_inv c t0 bs s'"
proof -
  from step have call: "callable (rpcs s t)"
    by (auto split: if_splits)
  then have nl: "rpcs s t \<noteq> Locked" "rpcs s t \<noteq> Refreshing"
    by (auto simp: callable_def)
  with inv have mu: "refreshMu s \<noteq> Some t"
    by (auto simp: refresh_inv_def)
  from inv auto have ar: "autoRefresh (client s)"
    by (simp add: refresh_inv_def)
  show ?thesis
  proof (cases "tokenNeedsRefresh (client s) (clock s)")
    case True
    with step call ar have s': "s' = s\<lparr>rpcs := (rpcs s)(t := AwaitLock)\<rparr>"
      by simp
    have fresh: False
      if "token (client s) \<noteq> []"
        "clock s + until_last_check bs + refreshThreshold c \<le> tokenExpiry (client s)"
      using late_check [OF inv True that] .
    from inv mu nl fresh show ?thesis
      unfolding s' refresh_inv_def by auto
  next
    case False
    with step call have s': "s' = s\<lparr>rpcs := (rpcs s)(t := Done None)\<rparr>"
      by simp
    have early: "\<not> tokenNeedsRefresh c t0"
      if "token (client s) = token c" "tokenExpiry (client s) = tokenExpiry c"
      using early_check [OF inv False that] .
    from inv mu nl early show ?thesis
      unfolding s' refresh_inv_def by auto
  qed
qed

lemma refresh_inv_Lock:
  assumes inv: "refresh_inv c t0 (LockRefreshMu t # bs) s"
    and step: "refresh_step (LockRefreshMu t) s = Some s'"
  shows "refresh_inv c t0 bs s'"
proof -
  from step have pre: "rpcs s t = AwaitLock" "refreshMu s = None"
    and s': "s' = s\<lparr>refreshMu := Some t, rpcs := (rpcs s)(t := Locked)\<rparr>"
    by (auto split: if_splits)
  from inv pre have none: "\<forall>u. rpcs s u \<noteq> Locked \<and> rpcs s u \<noteq> Refreshing"
    by (auto simp: refresh_inv_def)
  from inv pre none show ?thesis
    unfolding s' refresh_inv_def by auto
qed

lemma refresh_inv_DoubleCheck:
  assumes inv: "refresh_inv c t0 (DoubleCheck t # bs) s"
    and step: "refresh_step (DoubleCheck t) s = Some s'"
  shows "refresh_inv c t0 bs s'"
proof -
  from step have pre: "rpcs s t = Locked"
    by (auto split: if_splits)
  with inv have mu: "refreshMu s = Some t"
    by (auto simp: refresh_inv_def)
  with inv have only: "\<forall>u. u \<noteq> t \<longrightarrow> rpcs s u \<noteq> Locked \<and> rpcs s u \<noteq> Refreshing"
    by (auto simp: refresh_inv_def)
  show ?thesis
  proof (cases "tokenNeedsRefresh (client s) (clock s)")
    case True
    with step pre have s': "s' = s\<lparr>rpcs := (rpcs s)(t := Refreshing)\<rparr>"
      by simp
    have fresh: False
      if "token (client s) \<noteq> []"
        "clock s + until_last_check bs + refreshThreshold c \<le> tokenExpiry (client s)"
      using late_check [OF inv True that] .
    from inv mu pre only fresh show ?thesis
      unfolding s' refresh_inv_def by auto
  next
    case False
    with step pre have s': "s' = s\<lparr>refreshMu := None, rpcs := (rpcs s)(t := Done None)\<rparr>"
      by simp
    have early: "\<not> tokenNeedsRefresh c t0"
      if "token (client s) = token c" "tokenExpiry (client s) = tokenExpiry c"
      using early_check [OF inv False that] .
    from inv mu pre only early show ?thesis
      unfolding s' refresh_inv_def by auto
  qed
qed

lemma refresh_inv_Finish:
  assumes inv: "refresh_inv c t0 (FinishRefresh t srv # bs) s"
    and step: "refresh_step (FinishRefresh t srv) s = Some s'"
  shows "refresh_inv c t0 bs s'"
proof -
  from step have pre: "rpcs s t = Refreshing"
    by (auto split: if_splits)
  with inv have mu: "refreshMu s = Some t"
    by (auto simp: refresh_inv_def)
  with inv have only: "\<forall>u. u \<noteq> t \<longrightarrow> rpcs s u \<noteq> Locked \<and> rpcs s u \<noteq> Refreshing"
    by (auto simp: refresh_inv_def)
  from inv pre have first: "httpCalls (client s) = httpCalls c"
    and ok: "renews c srv"
    and win: "\<not> has_check bs \<or> until_last_check bs + refreshThreshold c \<le> tokenLifetime c"
    by (auto simp: refresh_inv_def)
  from inv have cfg: "credentials (client s) = credentials c" "tokenLifetime (client s) = tokenLifetime c"
    "t0 \<le> clock s"
    by (simp_all add: refresh_inv_def)
  from renews_refreshToken [OF ok cfg(1), of "clock s"]
  obtain tok where tok: "tok \<noteq> []"
    and rt: "refreshToken (client s) (clock s) srv
             = ((client s)\<lparr>httpCalls := httpCalls (client s) + 1, token := tok,
                    tokenExpiry := clock s + tokenLifetime (client s)\<rparr>, None)"
    by blast
  from step pre rt have s': "s' = s\<lparr>client := (client s)\<lparr>httpCalls := httpCalls (client s) + 1, token := tok,
                    tokenExpiry := clock s + tokenLifetime (client s)\<rparr>,
                 refreshMu := None, rpcs := (rpcs s)(t := Done None)\<rparr>"
    by simp
  have exp: "has_check bs \<longrightarrow>
      clock s + until_last_check bs + refreshThreshold c \<le> clock s + tokenLifetime (client s)"
    using win cfg by auto
  from inv mu pre only first tok exp show ?thesis
    unfolding s' refresh_inv_def by auto
qed

lemma refresh_inv_step:
  assumes "refresh_inv c t0 (a # bs) s" and "refresh_step a s = Some s'" and "autoRefresh c"
  shows "refresh_inv c t0 bs s'"
proof (cases a)
  case (Tick d)
  with assms show ?thesis using refresh_inv_Tick by blast
next
  case (FastPath t)
  with assms show ?thesis using refresh_inv_FastPath by blast
next
  case (LockRefreshMu t)
  with assms show ?thesis using refresh_inv_Lock by blast
next
  case (DoubleCheck t)
  with assms show ?thesis using refresh_inv_DoubleCheck by blast
next
  case (FinishRefresh t srv)
  with assms show ?thesis using refresh_inv_Finish by blast
qed

lemma refresh_inv_run:
  assumes "refresh_inv c t0 as s" and "refresh_run as s = Some s'" and "autoRefresh c"
  shows "refresh_inv c t0 [] s'"
  using assms(1,2)
proof (induction as arbitrary: s)
  case Nil
  then show ?case by simp
next
  case (Cons a as)
  from Cons.prems(2) obtain s1 where s1: "refresh_step a s = Some s1" "refresh_run as s1 = Some s'"
    by (auto split: option.splits)
  have inv1: "refresh_inv c t0 as s1"
    using Cons.prems(1) s1(1) assms(3) by (rule refresh_inv_step)
  show ?case
    using Cons.IH [OF inv1 s1(2)] .
qed

text \<open>
  Claim C3, as amended. Take any execution of callers of \<^verbatim>\<open>ensureValidToken\<close> that
  starts with nobody inside the call, with auto-refresh enabled, in which the first
  login request that ends is answered with a usable token and every check of the
  refresh predicate after it is made while the renewed token is not yet within the
  refresh threshold (the time from the end of that request to the last check, plus
  \<open>refreshThreshold\<close>, is at most \<open>tokenLifetime\<close>). Then at most one login request
  is sent; exactly one if the token needed a refresh at the start and some caller has
  returned; every caller that has returned got nil; exactly the holder of
  \<^verbatim>\<open>refreshMu\<close> is in the locked section; and a caller whose check under the lock
  finds that no refresh is needed returns nil, leaves the client as it is and
  unlocks.
\<close>

theorem refresh_exactly_once:
  assumes "refresh_run as (refresh_init c t0) = Some s"
    and "autoRefresh c"
    and "first_renews c as"
    and "checks_in_time c as"
  shows "httpCalls (client s) \<le> httpCalls c + 1 \<and>
         (tokenNeedsRefresh c t0 \<and> (\<exists>t. rpcs s t = Done None) \<longrightarrow>
            httpCalls (client s) = httpCalls c + 1) \<and>
         (\<forall>t r. rpcs s t = Done r \<longrightarrow> r = None) \<and>
         (\<forall>t. (rpcs s t = Locked \<or> rpcs s t = Refreshing) = (refreshMu s = Some t)) \<and>
         (\<forall>t s'. refresh_step (DoubleCheck t) s = Some s' \<and> \<not> tokenNeedsRefresh (client s) (clock s)
            \<longrightarrow> rpcs s' t = Done None \<and> client s' = client s \<and> refreshMu s' = None)"
proof -
  have "refresh_inv c t0 as (refresh_init c t0)"
    using assms(3,4) by (rule refresh_inv_init)
  then have inv: "refresh_inv c t0 [] s"
    using assms(1,2) by (rule refresh_inv_run)
  have p1: "httpCalls (client s) \<le> httpCalls c + 1"
    using inv unfolding refresh_inv_def by auto
  have p2: "tokenNeedsRefresh c t0 \<and> (\<exists>t. rpcs s t = Done None) \<longrightarrow>
            httpCalls (client s) = httpCalls c + 1"
    using inv unfolding refresh_inv_def by auto
  have p3: "\<forall>t r. rpcs s t = Done r \<longrightarrow> r = None"
    using inv unfolding refresh_inv_def by blast
  have p4: "\<forall>t. (rpcs s t = Locked \<or> rpcs s t = Refreshing) = (refreshMu s = Some t)"
    using inv unfolding refresh_inv_def by blast
  have p5: "\<forall>t s'. refresh_step (DoubleCheck t) s = Some s' \<and> \<not> tokenNeedsRefresh (client s) (clock s)
            \<longrightarrow> rpcs s' t = Done None \<and> client s' = client s \<and> refreshMu s' = None"
    by (auto split: if_splits)
  show ?thesis
    by (rule conjI [OF p1 conjI [OF p2 conjI [OF p3 conjI [OF p4 p5]]]])
qed

lemma short_session_eq:
  "short_session =
     \<lparr>queue = queue_New, rateLimiter = None, token = ''tok0'', tokenExpiry = 100000000,
      credentials = Some \<lparr>username = ''user'', password = ''pass'', authString = []\<rparr>,
      tokenLifetime = 100000000, refreshThreshold = 90000000, autoRefresh = True, httpCalls = 0\<rparr>"
  by (simp add: short_session_def storeCredentials_def setTokenWithExpiry_def
      WithRefreshThreshold_def WithTokenLifetime_def client_New_def Millisecond_def)

lemma minute_session_eq:
  "minute_session =
     \<lparr>queue = queue_New, rateLimiter = None, token = ''tok0'', tokenExpiry = 60000000000,
      credentials = Some \<lparr>username = ''user'', password = ''pass'', authString = []\<rparr>,
      tokenLifetime = 60000000000, refreshThreshold = 300000000000, autoRefresh = True,
      httpCalls = 0\<rparr>"
  by (simp add: minute_session_def storeCredentials_def setTokenWithExpiry_def
      WithTokenLifetime_def client_New_def Second_def defaultRefreshThreshold_def)

lemma fixed_server_refresh:
  assumes "length bytes \<le> maxTokenSize"
  shows "refreshToken
     \<lparr>queue = q, rateLimiter = rl, token = tk, tokenExpiry = ex,
      credentials = Some \<lparr>username = ''user'', password = ''pass'', authString = []\<rparr>,
      tokenLifetime = lt, refreshThreshold = th, autoRefresh = ar, httpCalls = n\<rparr>
     now (fixed_server 200 bytes)
   = (\<lparr>queue = q, rateLimiter = rl, token = TrimSpace bytes, tokenExpiry = now + lt,
       credentials = Some \<lparr>username = ''user'', password = ''pass'', authString = []\<rparr>,
       tokenLifetime = lt, refreshThreshold = th, autoRefresh = ar, httpCalls = Suc n\<rparr>, None)"
  using assms
  by (simp add: refreshToken_def loginInternal_def fixed_server_def StatusOK_def
      ReadAll_LimitReader_def Let_def setTokenWithExpiry_def)

lemma contenders_run:
  "refresh_run contenders (refresh_init short_session (20 * Millisecond)) = Some contenders_state"
  by (simp add: contenders_def contenders_state_def refresh_init_def short_session_eq
      callable_def tokenNeedsRefresh_iff fixed_server_refresh maxTokenSize_def trim_examples
      Millisecond_def fun_upd_twist)

lemma contenders_renew: "first_renews short_session contenders"
  by (simp add: contenders_def renews_def short_session_eq fixed_server_def StatusOK_def
      ReadAll_LimitReader_def maxTokenSize_def trim_examples)

lemma contenders_in_time: "checks_in_time short_session contenders"
  by (simp add: contenders_def short_session_eq)

text \<open>
  Claim C3 on the scenario of the specification and of the repository's test: five
  callers contend at 20 ms, caller 1 renews the token with a login request that
  takes 50 ms, the callers 0, 2, 3 and 4 return nil after their check under the
  lock, and one login request was sent.
\<close>

theorem refresh_exactly_once_witness:
  "refresh_run contenders (refresh_init short_session (20 * Millisecond)) = Some contenders_state \<and>
   tokenNeedsRefresh short_session (20 * Millisecond) \<and>
   rpcs contenders_state 0 = Done None \<and> rpcs contenders_state 1 = Done None \<and>
   rpcs contenders_state 2 = Done None \<and> rpcs contenders_state 3 = Done None \<and>
   rpcs contenders_state 4 = Done None \<and>
   httpCalls (client contenders_state) = httpCalls short_session + 1"
proof -
  have a: "autoRefresh short_session"
    by (simp add: short_session_eq)
  have n: "tokenNeedsRefresh short_session (20 * Millisecond)"
    by (simp add: tokenNeedsRefresh_iff short_session_eq Millisecond_def)
  have d: "rpcs contenders_state 0 = Done None" "rpcs contenders_state 1 = Done None"
    "rpcs contenders_state 2 = Done None" "rpcs contenders_state 3 = Done None"
    "rpcs contenders_state 4 = Done None"
    by (simp_all add: contenders_state_def)
  from refresh_exactly_once [OF contenders_run a contenders_renew contenders_in_time] n d(1)
  have "httpCalls (client contenders_state) = httpCalls short_session + 1"
    by blast
  with contenders_run n d show ?thesis
    by simp
qed

text \<open>
  Claim C3 as stated fails: with a token lifetime of one minute under the default
  threshold of five minutes, the second of two contending callers finds under the
  lock that the token just renewed still needs a refresh, and sends a second login
  request.
\<close>

theorem refresh_exactly_once_counterexample:
  "refresh_run two_contenders (refresh_init minute_session 0) = Some two_contenders_state \<and>
   tokenNeedsRefresh minute_session 0 \<and>
   rpcs two_contenders_state 0 = Done None \<and> rpcs two_contenders_state 1 = Done None \<and>
   httpCalls minute_session = 0 \<and>
   httpCalls (client two_contenders_state) = 2"
  by (simp add: two_contenders_def two_contenders_state_def refresh_init_def minute_session_eq
      callable_def tokenNeedsRefresh_iff fixed_server_refresh maxTokenSize_def trim_examples
      fun_upd_twist Second_def)

text \<open>
  The other two conditions of the amended claim are needed as well. With
  auto-refresh disabled a caller that finds the token in need of a refresh gets
  \<^verbatim>\<open>ErrNoCredentials\<close> and no login request is sent; and when the first login request
  fails, its caller gets the error and the next caller under the lock sends a second
  request.
\<close>

lemma failing_server_refresh:
  "refreshToken
     \<lparr>queue = q, rateLimiter = rl, token = tk, tokenExpiry = ex,
      credentials = Some \<lparr>username = ''user'', password = ''pass'', authString = []\<rparr>,
      tokenLifetime = lt, refreshThreshold = th, autoRefresh = ar, httpCalls = n\<rparr>
     now (fixed_server 500 bytes)
   = (\<lparr>queue = q, rateLimiter = rl, token = tk, tokenExpiry = ex,
       credentials = Some \<lparr>username = ''user'', password = ''pass'', authString = []\<rparr>,
       tokenLifetime = lt, refreshThreshold = th, autoRefresh = ar, httpCalls = Suc n\<rparr>,
      Some (APIError 500))"
  by (simp add: refreshToken_def loginInternal_def fixed_server_def StatusOK_def
      parseAPIError_def Let_def)

lemma renewal_conditions_needed:
  "tokenNeedsRefresh manual_session (20 * Millisecond) \<and>
   refresh_run [FastPath 0] (refresh_init manual_session (20 * Millisecond)) = Some manual_state \<and>
   httpCalls (client manual_state) = httpCalls manual_session \<and>
   refresh_run retried (refresh_init short_session (20 * Millisecond)) = Some retried_state \<and>
   httpCalls short_session = 0 \<and>
   httpCalls (client retried_state) = 2"
  by (simp add: manual_session_def manual_state_def WithAutoRefresh_def retried_def
      retried_state_def refresh_init_def short_session_eq callable_def tokenNeedsRefresh_iff
      fixed_server_refresh failing_server_refresh maxTokenSize_def trim_examples Millisecond_def
      fun_upd_twist)

end
